theory Spec2Isabelle
  imports Main "HOL-Library.Word" "HOL-Library.Multiset"
begin

section \<open>JavaScript strings and values\<close>

text \<open>
  A JavaScript string is a sequence of UTF-16 code units. The identifier generator
  works on single code units throughout (\<^verbatim>\<open>split('')\<close>, \<^verbatim>\<open>charAt\<close>, a
  character class of ASCII letters), so a string is a list of 16-bit words.
  \<open>js\<close> writes an ASCII literal as such a list.
\<close>

type_synonym jschar = "16 word"
type_synonym jsstring = "jschar list"

definition js :: "string \<Rightarrow> jsstring" where
  "js s = map of_char s"

text \<open>
  The values a property read can give here: a string, \<^verbatim>\<open>undefined\<close>, or an object
  or function. The last one is kept with the text that string conversion gives it,
  which is all the generator ever does with it.
\<close>

datatype jsvalue = Undefined | Str jsstring | Obj jsstring

fun truthy :: "jsvalue \<Rightarrow> bool" where
  "truthy Undefined = False"
| "truthy (Str s) = (s \<noteq> [])"
| "truthy (Obj t) = True"

fun toStr :: "jsvalue \<Rightarrow> jsstring" where
  "toStr Undefined = js ''undefined''"
| "toStr (Str s) = s"
| "toStr (Obj t) = t"

text \<open>
  What the language leaves to the engine, taken as a parameter of the model:
  \<^item> \<open>unicodeUpper\<close>: \<^verbatim>\<open>String.prototype.toUpperCase\<close> on a string that has a
    non-ASCII code unit (the Unicode case tables);
  \<^item> \<open>protoProp\<close>: the value of a property that an object literal inherits from
    \<^verbatim>\<open>Object.prototype\<close> (\<^verbatim>\<open>constructor\<close>, \<^verbatim>\<open>toString\<close>, ...), \<open>Undefined\<close> for a
    name that is not inherited;
  \<^item> \<open>bigToString\<close>: \<^verbatim>\<open>Number.prototype.toString\<close> on an integer above \<open>2^53\<close>
    (shortest round-trip digits, exponent notation from \<open>10^21\<close>).
\<close>

record runtime =
  unicodeUpper :: "jsstring \<Rightarrow> jsstring"
  protoProp :: "jsstring \<Rightarrow> jsvalue"
  bigToString :: "int \<Rightarrow> jsstring"

text \<open>
  One runtime for closed examples: nothing is inherited and the two conversions are
  left trivial. The examples below that use it never reach a conversion, and read no
  property name that \<^verbatim>\<open>Object.prototype\<close> has.
\<close>

definition bareRuntime :: runtime where
  "bareRuntime = \<lparr> unicodeUpper = (\<lambda>s. s), protoProp = (\<lambda>k. Undefined), bigToString = (\<lambda>n. []) \<rparr>"

subsection \<open>String methods\<close>

definition isAsciiLetter :: "jschar \<Rightarrow> bool" where
  "isAsciiLetter c = ((0x41 \<le> c \<and> c \<le> 0x5A) \<or> (0x61 \<le> c \<and> c \<le> 0x7A))"

definition asciiUpper :: "jschar \<Rightarrow> jschar" where
  "asciiUpper c = (if 0x61 \<le> c \<and> c \<le> 0x7A then c - 0x20 else c)"

definition toUpperCase :: "runtime \<Rightarrow> jsstring \<Rightarrow> jsstring" where
  "toUpperCase rt s = (if list_all (\<lambda>c. c < 0x80) s then map asciiUpper s else unicodeUpper rt s)"

text \<open>\<^verbatim>\<open>s.split('')\<close>: one string per code unit; \<^verbatim>\<open>join('')\<close> concatenates.\<close>

definition split :: "jsstring \<Rightarrow> jsstring list" where
  "split s = map (\<lambda>c. [c]) s"

definition join :: "jsstring list \<Rightarrow> jsstring" where
  "join ss = concat ss"

text \<open>\<^verbatim>\<open>s.replace(/[^a-zA-Z]/g, '')\<close>\<close>

definition stripNonLetters :: "jsstring \<Rightarrow> jsstring" where
  "stripNonLetters s = filter isAsciiLetter s"

definition padEnd :: "jsstring \<Rightarrow> nat \<Rightarrow> jschar \<Rightarrow> jsstring" where
  "padEnd s n c = s @ replicate (n - length s) c"

definition padStart :: "jsstring \<Rightarrow> nat \<Rightarrow> jschar \<Rightarrow> jsstring" where
  "padStart s n c = replicate (n - length s) c @ s"

definition startsWith :: "jsstring \<Rightarrow> jsstring \<Rightarrow> bool" where
  "startsWith s p = (take (length p) s = p)"

text \<open>\<^verbatim>\<open>s.charAt(0)\<close>: the first code unit as a string, the empty string when there is none.\<close>

definition charAt0 :: "jsstring \<Rightarrow> jsstring" where
  "charAt0 s = take 1 s"

text \<open>
  A read \<^verbatim>\<open>obj[key]\<close> on an object literal with string values: the own property
  when there is one, the inherited one otherwise.
\<close>

definition getProp :: "runtime \<Rightarrow> (jsstring \<times> jsstring) list \<Rightarrow> jsstring \<Rightarrow> jsvalue" where
  "getProp rt obj key = (case map_of obj key of Some v \<Rightarrow> Str v | None \<Rightarrow> protoProp rt key)"

section \<open>The identifier generator (server/idgen.ts)\<close>

definition UMLAUT_MAP :: "(jsstring \<times> jsstring) list" where
  "UMLAUT_MAP =
    [([0xE4], js ''A''), ([0xF6], js ''O''), ([0xFC], js ''U''),
     ([0xC4], js ''A''), ([0xD6], js ''O''), ([0xDC], js ''U''),
     ([0xDF], js ''S'')]"

text \<open>
  \<^verbatim>\<open>UMLAUT_MAP[char] ?? char\<close>: every key read is a string of one code unit, and
  \<^verbatim>\<open>Object.prototype\<close> has no property with such a name, so the read is the own
  property or \<^verbatim>\<open>undefined\<close>.
\<close>

definition umlautOr :: "jsstring \<Rightarrow> jsstring" where
  "umlautOr char = (case map_of UMLAUT_MAP char of Some v \<Rightarrow> v | None \<Rightarrow> char)"

definition getTopicAbbreviation :: "runtime \<Rightarrow> jsstring \<Rightarrow> jsstring" where
  "getTopicAbbreviation rt topic =
    (let normalized = toUpperCase rt (stripNonLetters (join (map umlautOr (split topic))))
     in padEnd (take 3 normalized) 3 0x58)"

text \<open>The same function as the frontend has it (src/utils/idGenerator.ts).\<close>

definition fe_getTopicAbbreviation :: "runtime \<Rightarrow> jsstring \<Rightarrow> jsstring" where
  "fe_getTopicAbbreviation rt topic =
    (let normalized = toUpperCase rt (stripNonLetters (join (map umlautOr (split topic))))
     in padEnd (take 3 normalized) 3 0x58)"

text \<open>
  The abbreviation as the specification words it: transliterate the seven special
  letters, strip what is not an ASCII letter, upper-case, take three, pad with X.
\<close>

definition transliterate :: "jschar \<Rightarrow> jschar" where
  "transliterate c =
    (if c = 0xE4 \<or> c = 0xC4 then 0x41
     else if c = 0xF6 \<or> c = 0xD6 then 0x4F
     else if c = 0xFC \<or> c = 0xDC then 0x55
     else if c = 0xDF then 0x53
     else c)"

definition abbreviationSpec :: "jsstring \<Rightarrow> jsstring" where
  "abbreviationSpec topic =
    (let letters = map asciiUpper (filter isAsciiLetter (map transliterate topic))
     in take 3 letters @ replicate (3 - length letters) 0x58)"

subsection \<open>Numbers\<close>

text \<open>
  Every Number the generator meets has an integer value, is an infinity or is NaN.
  \<open>Fin n\<close> is the binary64 value \<open>n\<close>; \<open>-0\<close> is not told apart from \<open>0\<close>
  (they compare equal and print alike).
\<close>

datatype number = NaN | Fin int | PosInf | NegInf

fun bitlen :: "nat \<Rightarrow> nat" where
  "bitlen n = (if n = 0 then 0 else Suc (bitlen (n div 2)))"

declare bitlen.simps [simp del]

text \<open>
  The nearest binary64 value of a natural number: 53 significant bits, a tie going
  to the even significand.
\<close>

definition roundNat :: "nat \<Rightarrow> nat" where
  "roundNat n =
    (let k = bitlen n in
     if k \<le> 53 then n
     else
       let e = k - 53; q = n div 2 ^ e; r = n mod 2 ^ e; h = 2 ^ (e - 1);
           q' = (if r < h then q else if h < r then q + 1 else if even q then q else q + 1)
       in q' * 2 ^ e)"

text \<open>
  The Number of a mathematical integer. A rounded magnitude of \<open>2^1024\<close> or more,
  that is one of more than 1024 bits, is an infinity.
\<close>

definition toNumber :: "int \<Rightarrow> number" where
  "toNumber i =
    (let m = roundNat (nat \<bar>i\<bar>) in
     if 1024 < bitlen m then (if i < 0 then NegInf else PosInf)
     else Fin (if i < 0 then - int m else int m))"

fun isNaN :: "number \<Rightarrow> bool" where
  "isNaN NaN = True"
| "isNaN x = False"

text \<open>\<^verbatim>\<open>a > b\<close>\<close>

fun gt :: "number \<Rightarrow> number \<Rightarrow> bool" where
  "gt NaN b = False"
| "gt a NaN = False"
| "gt (Fin a) (Fin b) = (b < a)"
| "gt (Fin a) PosInf = False"
| "gt (Fin a) NegInf = True"
| "gt PosInf PosInf = False"
| "gt PosInf b = True"
| "gt NegInf b = False"

text \<open>\<^verbatim>\<open>a + 1\<close>: the exact sum, rounded.\<close>

fun plus1 :: "number \<Rightarrow> number" where
  "plus1 (Fin n) = toNumber (n + 1)"
| "plus1 x = x"

definition digitChar :: "nat \<Rightarrow> jschar" where
  "digitChar d = of_nat (48 + d)"

fun digits :: "nat \<Rightarrow> jsstring" where
  "digits n = (if n < 10 then [digitChar n] else digits (n div 10) @ [digitChar (n mod 10)])"

declare digits.simps [simp del]

text \<open>
  \<^verbatim>\<open>x.toString()\<close>: an integer up to \<open>2^53\<close> in magnitude prints as its decimal
  digits; above that the engine's shortest-digits conversion applies.
\<close>

fun numberToString :: "runtime \<Rightarrow> number \<Rightarrow> jsstring" where
  "numberToString rt NaN = js ''NaN''"
| "numberToString rt PosInf = js ''Infinity''"
| "numberToString rt NegInf = js ''-Infinity''"
| "numberToString rt (Fin n) =
    (if \<bar>n\<bar> \<le> 2 ^ 53
     then (if n < 0 then js ''-'' @ digits (nat (- n)) else digits (nat n))
     else bigToString rt n)"

subsection \<open>parseInt(string, 10)\<close>

text \<open>The white space and line terminators that \<^verbatim>\<open>parseInt\<close> skips at the start.\<close>

definition isWhiteSpace :: "jschar \<Rightarrow> bool" where
  "isWhiteSpace c =
    (c = 0x09 \<or> c = 0x0A \<or> c = 0x0B \<or> c = 0x0C \<or> c = 0x0D \<or> c = 0x20 \<or> c = 0xA0
     \<or> c = 0x1680 \<or> (0x2000 \<le> c \<and> c \<le> 0x200A) \<or> c = 0x2028 \<or> c = 0x2029
     \<or> c = 0x202F \<or> c = 0x205F \<or> c = 0x3000 \<or> c = 0xFEFF)"

definition isDigit :: "jschar \<Rightarrow> bool" where
  "isDigit c = (0x30 \<le> c \<and> c \<le> 0x39)"

definition digitVal :: "jschar \<Rightarrow> nat" where
  "digitVal c = unat c - 48"

definition mathInt :: "jsstring \<Rightarrow> nat" where
  "mathInt z = foldl (\<lambda>a c. 10 * a + digitVal c) 0 z"

text \<open>
  Skip leading white space, take an optional sign, read the longest run of decimal
  digits; no digit gives NaN, otherwise the signed value as a Number. (Where the
  language lets an engine zero the digits after the twentieth, the model keeps them,
  as V8 does.)
\<close>

definition parseInt :: "jsstring \<Rightarrow> number" where
  "parseInt string =
    (let s = dropWhile isWhiteSpace string;
         sign = (if s \<noteq> [] \<and> hd s = 0x2D then - 1 else 1);
         s' = (if s \<noteq> [] \<and> (hd s = 0x2B \<or> hd s = 0x2D) then tl s else s);
         z = takeWhile isDigit s'
     in if z = [] then NaN else toNumber (sign * int (mathInt z)))"

subsection \<open>getTypeInitial and generateCardId\<close>

definition typeMap :: "(jsstring \<times> jsstring) list" where
  "typeMap =
    [(js ''Formel'', js ''F''), (js ''Definition'', js ''D''), (js ''Graph'', js ''G''),
     (js ''Erkl'' @ [0xE4] @ js ''rung'', js ''E'')]"

text \<open>\<^verbatim>\<open>map[type] || type.charAt(0).toUpperCase()\<close>\<close>

definition getTypeInitial :: "runtime \<Rightarrow> jsstring \<Rightarrow> jsvalue" where
  "getTypeInitial rt type =
    (let v = getProp rt typeMap type
     in if truthy v then v else Str (toUpperCase rt (charAt0 type)))"

text \<open>One round of the loop over \<open>existingIds\<close>.\<close>

definition scanStep :: "jsstring \<Rightarrow> number \<Rightarrow> jsstring \<Rightarrow> number" where
  "scanStep prefix mx ident =
    (if startsWith ident prefix
     then (let num = parseInt (drop (length prefix) ident)
           in if \<not> isNaN num \<and> gt num mx then num else mx)
     else mx)"

definition generateCardId :: "runtime \<Rightarrow> jsstring \<Rightarrow> jsstring \<Rightarrow> jsstring list \<Rightarrow> jsstring" where
  "generateCardId rt topic type existingIds =
    (let abbr = getTopicAbbreviation rt topic;
         initial = getTypeInitial rt type;
         prefix = abbr @ js ''-'' @ toStr initial @ js ''-'';
         mx = foldl (scanStep prefix) (Fin 0) existingIds
     in prefix @ padStart (numberToString rt (plus1 mx)) 3 0x30)"

section \<open>The frontend's generator (src/utils/idGenerator.ts)\<close>

definition TYPE_INITIAL_MAP :: "(jsstring \<times> jsstring) list" where
  "TYPE_INITIAL_MAP =
    [(js ''Formel'', js ''F''), (js ''Definition'', js ''D''), (js ''Graph'', js ''G''),
     (js ''Erkl'' @ [0xE4] @ js ''rung'', js ''E'')]"

text \<open>\<^verbatim>\<open>TYPE_INITIAL_MAP[type]\<close>, with no fallback.\<close>

definition fe_getTypeInitial :: "runtime \<Rightarrow> jsstring \<Rightarrow> jsvalue" where
  "fe_getTypeInitial rt type = getProp rt TYPE_INITIAL_MAP type"

definition fe_scanStep :: "jsstring \<Rightarrow> number \<Rightarrow> jsstring \<Rightarrow> number" where
  "fe_scanStep prefix maxNumber ident =
    (if startsWith ident prefix
     then (let numPart = drop (length prefix) ident;
               parsed = parseInt numPart
           in if \<not> isNaN parsed \<and> gt parsed maxNumber then parsed else maxNumber)
     else maxNumber)"

definition fe_generateCardId :: "runtime \<Rightarrow> jsstring \<Rightarrow> jsstring \<Rightarrow> jsstring list \<Rightarrow> jsstring" where
  "fe_generateCardId rt topic type existingIds =
    (let abbreviation = fe_getTopicAbbreviation rt topic;
         typeInitial = fe_getTypeInitial rt type;
         prefix = abbreviation @ js ''-'' @ toStr typeInitial @ js ''-'';
         maxNumber = foldl (fe_scanStep prefix) (Fin 0) existingIds;
         nextNumber = plus1 maxNumber;
         padded = padStart (numberToString rt nextNumber) 3 0x30
     in prefix @ padded)"

section \<open>Notions for the statements about the generator\<close>

text \<open>The prefix that \<open>generateCardId\<close> derives from topic and type.\<close>

definition idPrefix :: "runtime \<Rightarrow> jsstring \<Rightarrow> jsstring \<Rightarrow> jsstring" where
  "idPrefix rt topic type =
    getTopicAbbreviation rt topic @ js ''-'' @ toStr (getTypeInitial rt type) @ js ''-''"

text \<open>
  The Numbers that \<^verbatim>\<open>parseInt\<close> reads from the suffixes of the ids that start with
  the prefix, the largest integer among them with 0 as the floor, and the condition
  that all of them are NaN or integers below \<open>2^53\<close>.
\<close>

definition parsedSeqs :: "jsstring \<Rightarrow> jsstring list \<Rightarrow> number list" where
  "parsedSeqs prefix ids =
    map (\<lambda>i. parseInt (drop (length prefix) i)) (filter (\<lambda>i. startsWith i prefix) ids)"

fun finValues :: "number list \<Rightarrow> int list" where
  "finValues [] = []"
| "finValues (Fin n # vs) = n # finValues vs"
| "finValues (v # vs) = finValues vs"

definition maxSeq :: "jsstring \<Rightarrow> jsstring list \<Rightarrow> int" where
  "maxSeq prefix ids = Max (set (0 # finValues (parsedSeqs prefix ids)))"

fun safeNumber :: "number \<Rightarrow> bool" where
  "safeNumber NaN = True"
| "safeNumber (Fin n) = (n < 2 ^ 53)"
| "safeNumber x = False"

definition safeIds :: "jsstring \<Rightarrow> jsstring list \<Rightarrow> bool" where
  "safeIds prefix ids = list_all safeNumber (parsedSeqs prefix ids)"

text \<open>
  The id that the scan of the existing ids and the padding make of a given prefix: the
  part of \<open>generateCardId\<close> after the prefix is built.
\<close>

definition idFromPrefix :: "runtime \<Rightarrow> jsstring \<Rightarrow> jsstring list \<Rightarrow> jsstring" where
  "idFromPrefix rt prefix ids =
    prefix @ padStart (numberToString rt (plus1 (foldl (scanStep prefix) (Fin 0) ids))) 3 0x30"

text \<open>
  A second runtime for closed examples: as \<open>bareRuntime\<close>, but the name
  \<^verbatim>\<open>constructor\<close> is inherited, with the text that V8 gives the function \<^verbatim>\<open>Object\<close>.
\<close>

definition inheritingRuntime :: runtime where
  "inheritingRuntime =
    \<lparr> unicodeUpper = (\<lambda>s. s),
      protoProp = (\<lambda>k. if k = js ''constructor''
                        then Obj (js ''function Object() { [native code] }'') else Undefined),
      bigToString = (\<lambda>n. []) \<rparr>"

section \<open>Bulk import (server/index.ts, POST /api/cards/import)\<close>

text \<open>
  An incoming or stored card, as far as the route reads it: title, topic and type, which
  are strings, and the rest of the record, which is passed through untouched.
\<close>

record 'p card =
  cardTitle :: jsstring
  cardTopic :: jsstring
  cardType :: jsstring
  cardRest :: 'p

definition fingerprintOf :: "'p card \<Rightarrow> jsstring" where
  "fingerprintOf c = cardTitle c @ js ''|||'' @ cardTopic c @ js ''|||'' @ cardType c"

text \<open>
  The three arrays that the loop over the batch fills. A full card
  \<^verbatim>\<open>{ ...card, id }\<close> is the card with its id.
\<close>

record 'p importLoop =
  imported :: "('p card \<times> jsstring) list"
  duplicates :: "'p card list"
  allIds :: "jsstring list"

definition importStep :: "runtime \<Rightarrow> jsstring set \<Rightarrow> 'p importLoop \<Rightarrow> 'p card \<Rightarrow> 'p importLoop" where
  "importStep rt existingFingerprints st c =
    (let fingerprint = fingerprintOf c in
     if fingerprint \<in> existingFingerprints
     then st\<lparr>duplicates := duplicates st @ [c]\<rparr>
     else
       let ident = generateCardId rt (cardTopic c) (cardType c) (allIds st);
           fullCard = (c, ident)
       in st\<lparr>allIds := allIds st @ [ident], imported := imported st @ [fullCard]\<rparr>)"

definition importLoop :: "runtime \<Rightarrow> jsstring list \<Rightarrow> 'p card list \<Rightarrow> 'p card list \<Rightarrow> 'p importLoop" where
  "importLoop rt existingIds existingCards cards =
    (let existingFingerprints = set (map fingerprintOf existingCards)
     in foldl (importStep rt existingFingerprints)
          \<lparr>imported = [], duplicates = [], allIds = existingIds\<rparr> cards)"

subsection \<open>Storing the imported cards (server/db.ts)\<close>

text \<open>
  The other fields of a card, as the JSON body gives them: absent, \<^verbatim>\<open>null\<close>, a boolean,
  a number (of which only whether it is 0 matters here), a string, or an array or object.
\<close>

datatype jsfield = Absent | JNull | JBool bool | JNum bool | JText jsstring | JCompound

fun truthyField :: "jsfield \<Rightarrow> bool" where
  "truthyField Absent = False"
| "truthyField JNull = False"
| "truthyField (JBool b) = b"
| "truthyField (JNum nonzero) = nonzero"
| "truthyField (JText s) = (s \<noteq> [])"
| "truthyField JCompound = True"

record extras =
  fContent :: jsfield
  fCategory :: jsfield
  fLatex :: jsfield
  fVariables :: jsfield
  fResultUnit :: jsfield
  fConditions :: jsfield
  fAxes :: jsfield
  fKeyFeatures :: jsfield
  fImage :: jsfield
  fImageNeeded :: jsfield
  fImageDescription :: jsfield

text \<open>
  The kind of value that reaches a parameter of the prepared statement. The statement
  binds numbers, strings and \<^verbatim>\<open>null\<close> and throws on anything else; it throws as well
  when \<^verbatim>\<open>null\<close> reaches a column declared \<^verbatim>\<open>NOT NULL\<close>.
\<close>

datatype param = PUndefined | PNull | PBoolean | PNumber | PString | PObject

fun paramOf :: "jsfield \<Rightarrow> param" where
  "paramOf Absent = PUndefined"
| "paramOf JNull = PNull"
| "paramOf (JBool b) = PBoolean"
| "paramOf (JNum nonzero) = PNumber"
| "paramOf (JText s) = PString"
| "paramOf JCompound = PObject"

text \<open>\<^verbatim>\<open>x ?? d\<close>\<close>

fun orElse :: "jsfield \<Rightarrow> param \<Rightarrow> param" where
  "orElse Absent d = d"
| "orElse JNull d = d"
| "orElse x d = paramOf x"

text \<open>\<^verbatim>\<open>x ? JSON.stringify(x) : null\<close>\<close>

definition stringifyOrNull :: "jsfield \<Rightarrow> param" where
  "stringifyOrNull x = (if truthyField x then PString else PNull)"

record row =
  rowId :: param
  rowTopic :: param
  rowType :: param
  rowCategory :: param
  rowTitle :: param
  rowContent :: param
  rowLatex :: param
  rowVariables :: param
  rowResultUnit :: param
  rowConditions :: param
  rowAxes :: param
  rowKeyFeatures :: param
  rowImage :: param
  rowImageNeeded :: param
  rowImageDescription :: param

text \<open>
  \<open>cardToRow\<close> on a full card. Id, topic, type and title are strings here; content is
  handed on as it is.
\<close>

definition cardToRow :: "extras card \<times> jsstring \<Rightarrow> row" where
  "cardToRow fullCard =
    (let x = cardRest (fst fullCard) in
     \<lparr> rowId = PString,
       rowTopic = PString,
       rowType = PString,
       rowCategory = orElse (fCategory x) PString,
       rowTitle = PString,
       rowContent = paramOf (fContent x),
       rowLatex = orElse (fLatex x) PNull,
       rowVariables = stringifyOrNull (fVariables x),
       rowResultUnit = orElse (fResultUnit x) PNull,
       rowConditions = orElse (fConditions x) PNull,
       rowAxes = stringifyOrNull (fAxes x),
       rowKeyFeatures = stringifyOrNull (fKeyFeatures x),
       rowImage = orElse (fImage x) PNull,
       rowImageNeeded = (if truthyField (fImageNeeded x) then PNumber else PNumber),
       rowImageDescription = orElse (fImageDescription x) PNull \<rparr>)"

definition bindable :: "param \<Rightarrow> bool" where
  "bindable p = (p = PNull \<or> p = PNumber \<or> p = PString)"

text \<open>\<^verbatim>\<open>stmts.upsert.run(row)\<close> returns, rather than throws.\<close>

definition upsertRuns :: "row \<Rightarrow> bool" where
  "upsertRuns r =
    (list_all bindable
       [rowId r, rowTopic r, rowType r, rowCategory r, rowTitle r, rowContent r, rowLatex r,
        rowVariables r, rowResultUnit r, rowConditions r, rowAxes r, rowKeyFeatures r,
        rowImage r, rowImageNeeded r, rowImageDescription r]
     \<and> list_all (\<lambda>p. p \<noteq> PNull)
       [rowTopic r, rowType r, rowCategory r, rowTitle r, rowContent r, rowImageNeeded r])"

text \<open>
  \<open>bulkUpsert\<close>, one transaction over the cards: the rows written, or \<open>None\<close> when a
  statement throws (nothing is written then, and the exception leaves the function).
\<close>

definition bulkUpsert :: "(extras card \<times> jsstring) list \<Rightarrow> row list option" where
  "bulkUpsert cards =
    (if list_all (\<lambda>c. upsertRuns (cardToRow c)) cards then Some (map cardToRow cards) else None)"

subsection \<open>The route\<close>

text \<open>
  The answer of the route: status 400 when the body has no \<^verbatim>\<open>cards\<close> array; status 500,
  from the framework, when \<open>bulkUpsert\<close> throws, which the route does not catch; otherwise
  the two counts and the imported cards. \<open>bulkUpsert\<close> is called only for a non-empty list.
\<close>

record importResult =
  importedCount :: nat
  duplicateCount :: nat
  resultCards :: "(extras card \<times> jsstring) list"

datatype response = BadRequest | ServerError | Ok importResult

definition importRoute ::
    "runtime \<Rightarrow> jsstring list \<Rightarrow> extras card list \<Rightarrow> extras card list option \<Rightarrow> response" where
  "importRoute rt existingIds existingCards body =
    (case body of
       None \<Rightarrow> BadRequest
     | Some cards \<Rightarrow>
         (let st = importLoop rt existingIds existingCards cards;
              answer = Ok \<lparr>importedCount = length (imported st),
                           duplicateCount = length (duplicates st),
                           resultCards = imported st\<rparr>
          in if 0 < length (imported st)
             then (case bulkUpsert (imported st) of None \<Rightarrow> ServerError | Some rows \<Rightarrow> answer)
             else answer))"

section \<open>The review deck (FlashcardView)\<close>

datatype phase = Setup | Learning | Done

text \<open>
  The state of the component. A deck entry is a card or \<^verbatim>\<open>undefined\<close> (\<open>None\<close>), which
  is what \<^verbatim>\<open>splice\<close> hands back when the index is past the end. The two counters are
  Numbers that grow by one at a time.
\<close>

record 'c session =
  phase :: phase
  deck :: "'c option list"
  currentIndex :: nat
  isFlipped :: bool
  knownCount :: nat
  totalSeen :: nat

definition initialSession :: "'c session" where
  "initialSession =
    \<lparr>phase = Setup, deck = [], currentIndex = 0, isFlipped = False, knownCount = 0, totalSeen = 0\<rparr>"

text \<open>\<^verbatim>\<open>prev + 1\<close> on a counter: the exact sum, rounded to binary64.\<close>

definition addOne :: "nat \<Rightarrow> nat" where
  "addOne prev = roundNat (prev + 1)"

text \<open>\<^verbatim>\<open>deck[currentIndex] ?? null\<close>\<close>

definition currentCard :: "'c session \<Rightarrow> 'c option" where
  "currentCard s = (if currentIndex s < length (deck s) then deck s ! currentIndex s else None)"

text \<open>
  \<open>shuffled\<close> is the order in which \<^verbatim>\<open>[...cards].sort(() => Math.random() - 0.5)\<close>
  leaves the cards.
\<close>

definition startLearning :: "'c list \<Rightarrow> 'c list \<Rightarrow> 'c session \<Rightarrow> 'c session" where
  "startLearning shuffled cards s =
    (if length cards = 0 then s
     else \<lparr>phase = Learning, deck = map Some shuffled, currentIndex = 0, isFlipped = False,
           knownCount = 0, totalSeen = 0\<rparr>)"

definition handleFlip :: "'c session \<Rightarrow> 'c session" where
  "handleFlip s = s\<lparr>isFlipped := \<not> isFlipped s\<rparr>"

definition handleKnown :: "'c session \<Rightarrow> 'c session" where
  "handleKnown s =
    (let s' = s\<lparr>knownCount := addOne (knownCount s), totalSeen := addOne (totalSeen s),
                 isFlipped := False\<rparr>
     in if length (deck s) \<le> currentIndex s + 1
        then s'\<lparr>phase := Done\<rparr>
        else s'\<lparr>currentIndex := currentIndex s + 1\<rparr>)"

text \<open>
  \<^verbatim>\<open>updated.splice(currentIndex, 1)[0]\<close> followed by \<^verbatim>\<open>updated.push(card)\<close>: the entry
  at the index leaves its place and goes to the end; past the end nothing leaves and
  \<^verbatim>\<open>undefined\<close> is pushed.
\<close>

definition moveToEnd :: "nat \<Rightarrow> 'c option list \<Rightarrow> 'c option list" where
  "moveToEnd i prev =
    (let c = (if i < length prev then prev ! i else None);
         updated = take i prev @ drop (Suc i) prev
     in updated @ [c])"

definition handleAgain :: "'c session \<Rightarrow> 'c session" where
  "handleAgain s =
    (let s' = s\<lparr>totalSeen := addOne (totalSeen s), isFlipped := False,
                 deck := moveToEnd (currentIndex s) (deck s)\<rparr>
     in if int (length (deck s)) - 1 \<le> int (currentIndex s)
        then s'\<lparr>currentIndex := currentIndex s\<rparr>
        else s')"

text \<open>
  The inputs. The key listener exists only in the learning phase; the card is drawn only
  there and only when there is a current card; the two buttons are drawn only when the
  card is flipped as well. An input on what is not there changes nothing.
\<close>

datatype key = Space | Spacebar | ArrowRight | ArrowLeft | OtherKey

definition handleKeyDown :: "key \<Rightarrow> 'c session \<Rightarrow> 'c session" where
  "handleKeyDown k s =
    (if k = Space \<or> k = Spacebar then handleFlip s
     else if k = ArrowRight \<and> isFlipped s then handleKnown s
     else if k = ArrowLeft \<and> isFlipped s then handleAgain s
     else s)"

datatype event = KeyDown key | ClickCard | ClickAgain | ClickKnown

fun step :: "event \<Rightarrow> 'c session \<Rightarrow> 'c session" where
  "step (KeyDown k) s = (if phase s \<noteq> Learning then s else handleKeyDown k s)"
| "step ClickCard s =
    (if phase s = Learning \<and> currentCard s \<noteq> None then handleFlip s else s)"
| "step ClickAgain s =
    (if phase s = Learning \<and> currentCard s \<noteq> None \<and> isFlipped s then handleAgain s else s)"
| "step ClickKnown s =
    (if phase s = Learning \<and> currentCard s \<noteq> None \<and> isFlipped s then handleKnown s else s)"

definition run :: "event list \<Rightarrow> 'c session \<Rightarrow> 'c session" where
  "run es s = foldl (\<lambda>s e. step e s) s es"

text \<open>
  \<^verbatim>\<open>Math.round((knownCount / totalCards) * 100)\<close> in binary64, on counts up to \<open>2^53\<close>.
  The quotient is rounded to a significand \<open>m\<close> of 53 bits, \<open>m * 2^c / 2^t\<close>; the product
  with 100 is rounded again; \<^verbatim>\<open>Math.round\<close> takes the nearest integer, a half going up.
\<close>

definition halfEven :: "nat \<Rightarrow> nat \<Rightarrow> nat" where
  "halfEven a b =
    (let q = a div b; r = a mod b
     in if 2 * r < b then q else if b < 2 * r then q + 1 else if even q then q else q + 1)"

definition percentage :: "nat \<Rightarrow> nat \<Rightarrow> nat" where
  "percentage known totalCards =
    (if 0 < totalCards then
       (let t = 53 + bitlen totalCards - bitlen known;
            c = (if known * 2 ^ t div totalCards < 2 ^ 53 then 0 else 1);
            m = halfEven (known * 2 ^ t) (totalCards * 2 ^ c);
            p = roundNat (m * 2 ^ c * 100)
        in (2 * p + 2 ^ t) div 2 ^ (t + 1))
     else 0)"

definition percentageOf :: "'c session \<Rightarrow> nat" where
  "percentageOf s = percentage (knownCount s) (length (deck s))"

section \<open>Notions for the statements about the deck and the import\<close>

text \<open>
  What every state of a running session satisfies, for the multiset \<open>M\<close> of the deck at
  the start: the counters are ordered and within the exact range, the deck still holds
  \<open>M\<close>, and the index is inside the deck.
\<close>

definition sessionInv :: "'c option multiset \<Rightarrow> 'c session \<Rightarrow> bool" where
  "sessionInv M s =
    (knownCount s \<le> totalSeen s \<and> totalSeen s \<le> 2 ^ 53 \<and> mset (deck s) = M
     \<and> currentIndex s < length (deck s))"

text \<open>
  How far a running session is: while learning, as many answers "known" as the index
  says; when done, as many as the deck has cards.
\<close>

definition progressInv :: "'c session \<Rightarrow> bool" where
  "progressInv s =
    (length (deck s) \<le> 2 ^ 53 \<and>
     (phase s = Learning \<and> knownCount s = currentIndex s \<and> currentIndex s < length (deck s)
      \<or> phase s = Done \<and> knownCount s = length (deck s)))"

text \<open>
  A duplicate, in the words of the specification: a card whose fingerprint occurs among
  the fingerprints of the existing cards.
\<close>

definition isDuplicate :: "'p card list \<Rightarrow> 'p card \<Rightarrow> bool" where
  "isDuplicate existingCards c = (fingerprintOf c \<in> fingerprintOf ` set existingCards)"

text \<open>
  What the store asks of a card beyond title, topic and type: the content is a string or
  a number, and none of category, latex, result unit, conditions, image and image
  description is a boolean, an array or an object.
\<close>

fun isValue :: "jsfield \<Rightarrow> bool" where
  "isValue (JNum nonzero) = True"
| "isValue (JText s) = True"
| "isValue x = False"

fun isOptionalValue :: "jsfield \<Rightarrow> bool" where
  "isOptionalValue (JBool b) = False"
| "isOptionalValue JCompound = False"
| "isOptionalValue x = True"

definition acceptedByStore :: "extras card \<Rightarrow> bool" where
  "acceptedByStore c =
    (let x = cardRest c in
     isValue (fContent x) \<and> isOptionalValue (fCategory x) \<and> isOptionalValue (fLatex x)
     \<and> isOptionalValue (fResultUnit x) \<and> isOptionalValue (fConditions x)
     \<and> isOptionalValue (fImage x) \<and> isOptionalValue (fImageDescription x))"

text \<open>A card with title, topic and type and nothing else, and one with a content as well.\<close>

definition bareCard :: "jsstring \<Rightarrow> jsstring \<Rightarrow> jsstring \<Rightarrow> extras card" where
  "bareCard title topic type =
    \<lparr>cardTitle = title, cardTopic = topic, cardType = type,
     cardRest = \<lparr>fContent = Absent, fCategory = Absent, fLatex = Absent, fVariables = Absent,
       fResultUnit = Absent, fConditions = Absent, fAxes = Absent, fKeyFeatures = Absent,
       fImage = Absent, fImageNeeded = Absent, fImageDescription = Absent\<rparr>\<rparr>"

definition cardWithContent :: "jsstring \<Rightarrow> jsstring \<Rightarrow> jsstring \<Rightarrow> jsstring \<Rightarrow> extras card" where
  "cardWithContent title topic type content =
    \<lparr>cardTitle = title, cardTopic = topic, cardType = type,
     cardRest = \<lparr>fContent = JText content, fCategory = Absent, fLatex = Absent, fVariables = Absent,
       fResultUnit = Absent, fConditions = Absent, fAxes = Absent, fKeyFeatures = Absent,
       fImage = Absent, fImageNeeded = Absent, fImageDescription = Absent\<rparr>\<rparr>"

section \<open>Properties of the abbreviation\<close>

lemma isAsciiLetter_ascii: "isAsciiLetter c \<Longrightarrow> c < 0x80"
  unfolding isAsciiLetter_def by (auto simp: word_le_nat_alt word_less_nat_alt)

lemma toUpperCase_letters:
  "toUpperCase rt (filter isAsciiLetter s) = map asciiUpper (filter isAsciiLetter s)"
  unfolding toUpperCase_def by (simp add: list_all_iff isAsciiLetter_ascii)

lemma umlautOr_single: "umlautOr [c] = [transliterate c]"
  unfolding umlautOr_def UMLAUT_MAP_def transliterate_def js_def by simp

lemma join_umlautOr_split: "join (map umlautOr (split topic)) = map transliterate topic"
  unfolding join_def split_def by (induction topic) (simp_all add: umlautOr_single)

lemma getTopicAbbreviation_eq_spec: "getTopicAbbreviation rt topic = abbreviationSpec topic"
  unfolding getTopicAbbreviation_def abbreviationSpec_def stripNonLetters_def padEnd_def
  by (simp add: join_umlautOr_split toUpperCase_letters Let_def min_def)

lemma isUpper_asciiUpper: "isAsciiLetter c \<Longrightarrow> 0x41 \<le> asciiUpper c \<and> asciiUpper c \<le> 0x5A"
  unfolding isAsciiLetter_def asciiUpper_def
  by (auto simp: word_le_nat_alt unat_sub_if_size word_size)

lemma abbreviationSpec_upper:
  "c \<in> set (abbreviationSpec topic) \<Longrightarrow> 0x41 \<le> c \<and> c \<le> 0x5A"
  unfolding abbreviationSpec_def Let_def
  by (auto dest!: in_set_takeD simp: isUpper_asciiUpper)

lemma abbreviationSpec_length: "length (abbreviationSpec topic) = 3"
  unfolding abbreviationSpec_def Let_def by auto

lemma upper_fixed:
  assumes "0x41 \<le> c \<and> c \<le> 0x5A"
  shows "transliterate c = c" and "isAsciiLetter c" and "asciiUpper c = c"
  using assms unfolding transliterate_def isAsciiLetter_def asciiUpper_def
  by (auto simp: word_le_nat_alt)

lemma abbreviationSpec_fixed:
  assumes "length s = 3" and "\<forall>c\<in>set s. 0x41 \<le> c \<and> c \<le> 0x5A"
  shows "abbreviationSpec s = s"
proof -
  have t: "map transliterate s = s"
    using assms(2) by (simp add: map_idI upper_fixed(1))
  have f: "filter isAsciiLetter s = s"
    using assms(2) by (simp add: upper_fixed(2))
  have u: "map asciiUpper s = s"
    using assms(2) by (simp add: map_idI upper_fixed(3))
  show ?thesis
    unfolding abbreviationSpec_def Let_def by (simp add: t f u assms(1))
qed

lemma abbreviationSpec_idem: "abbreviationSpec (abbreviationSpec topic) = abbreviationSpec topic"
  by (rule abbreviationSpec_fixed) (simp_all add: abbreviationSpec_length abbreviationSpec_upper)

text \<open>
  C5. \<open>getTopicAbbreviation\<close> transliterates the seven mapped letters, strips every
  remaining character that is not an ASCII letter, upper-cases, and takes the first
  three characters padded on the right with X to length three (\<open>abbreviationSpec\<close>).
  Its result depends on the topic alone, applying it to its own result changes
  nothing, and the frontend's copy computes the same. The four examples of the
  specification: "Zugversuch", "Haerteprufung" written with U+00E4 and U+00FC, "A", "123".
\<close>

theorem getTopicAbbreviation_correct:
  "getTopicAbbreviation rt topic = abbreviationSpec topic
   \<and> fe_getTopicAbbreviation rt topic = abbreviationSpec topic
   \<and> length (getTopicAbbreviation rt topic) = 3
   \<and> getTopicAbbreviation rt' topic = getTopicAbbreviation rt topic
   \<and> getTopicAbbreviation rt (getTopicAbbreviation rt topic) = getTopicAbbreviation rt topic
   \<and> getTopicAbbreviation rt (js ''Zugversuch'') = js ''ZUG''
   \<and> getTopicAbbreviation rt (js ''H'' @ [0xE4] @ js ''rtepr'' @ [0xFC] @ js ''fung'') = js ''HAR''
   \<and> getTopicAbbreviation rt (js ''A'') = js ''AXX''
   \<and> getTopicAbbreviation rt (js ''123'') = js ''XXX''"
proof -
  have fe: "fe_getTopicAbbreviation rt topic = getTopicAbbreviation rt topic"
    unfolding fe_getTopicAbbreviation_def getTopicAbbreviation_def ..
  have e1: "abbreviationSpec (js ''Zugversuch'') = js ''ZUG''"
    by code_simp
  have e2: "abbreviationSpec (js ''H'' @ [0xE4] @ js ''rtepr'' @ [0xFC] @ js ''fung'') = js ''HAR''"
    by code_simp
  have e3: "abbreviationSpec (js ''A'') = js ''AXX''"
    by code_simp
  have e4: "abbreviationSpec (js ''123'') = js ''XXX''"
    by code_simp
  show ?thesis
    by (simp only: fe getTopicAbbreviation_eq_spec abbreviationSpec_length
        abbreviationSpec_idem e1 e2 e3 e4 simp_thms)
qed

section \<open>Numbers, digits and parseInt\<close>

lemma bitlen_le_iff: "bitlen n \<le> k \<longleftrightarrow> n < 2 ^ k"
proof (induction n arbitrary: k rule: bitlen.induct)
  case (1 n)
  show ?case
  proof (cases "n = 0")
    case True
    then show ?thesis by (simp add: bitlen.simps)
  next
    case False
    show ?thesis
    proof (cases k)
      case 0
      with False show ?thesis by (simp add: bitlen.simps)
    next
      case (Suc j)
      have "bitlen n \<le> Suc j \<longleftrightarrow> bitlen (n div 2) \<le> j"
        using False by (subst bitlen.simps) simp
      also have "\<dots> \<longleftrightarrow> n div 2 < 2 ^ j"
        using 1 False by simp
      also have "\<dots> \<longleftrightarrow> n < 2 ^ Suc j"
        by auto
      finally show ?thesis using Suc by simp
    qed
  qed
qed

lemma bitlen_eqI: "2 ^ k \<le> n \<Longrightarrow> n < 2 ^ Suc k \<Longrightarrow> bitlen n = Suc k"
proof -
  assume a: "2 ^ k \<le> n" and b: "n < 2 ^ Suc k"
  have "bitlen n \<le> Suc k" using b bitlen_le_iff by blast
  moreover have "\<not> bitlen n \<le> k" using a bitlen_le_iff [of n k] by simp
  ultimately show ?thesis by simp
qed

lemma roundNat_small: "n \<le> 2 ^ 53 \<Longrightarrow> roundNat n = n"
proof (cases "n < 2 ^ 53")
  case True
  then have "bitlen n \<le> 53" by (simp add: bitlen_le_iff)
  then show ?thesis by (simp add: roundNat_def)
next
  case False
  assume "n \<le> 2 ^ 53"
  with False have n: "n = 2 ^ 53" by simp
  have "bitlen n = Suc 53" unfolding n by (rule bitlen_eqI) simp_all
  then show ?thesis unfolding roundNat_def Let_def n by simp
qed

lemma roundNat_tie: "roundNat (2 ^ 53 + 1) = 2 ^ 53"
proof -
  have "bitlen (2 ^ 53 + 1) = Suc 53" by (rule bitlen_eqI) simp_all
  then show ?thesis unfolding roundNat_def Let_def by simp
qed

lemma toNumber_small: "\<bar>i\<bar> \<le> 2 ^ 53 \<Longrightarrow> toNumber i = Fin i"
proof -
  assume a: "\<bar>i\<bar> \<le> 2 ^ 53"
  then have n: "nat \<bar>i\<bar> \<le> 2 ^ 53"
    by (metis nat_le_iff of_nat_numeral of_nat_power)
  then have r: "roundNat (nat \<bar>i\<bar>) = nat \<bar>i\<bar>" by (rule roundNat_small)
  have "nat \<bar>i\<bar> < 2 ^ 1024"
    using n by (rule le_less_trans) simp
  then have "bitlen (nat \<bar>i\<bar>) \<le> 1024" by (simp add: bitlen_le_iff)
  then show ?thesis unfolding toNumber_def Let_def r by auto
qed

lemma plus1_tie: "plus1 (Fin (2 ^ 53)) = Fin (2 ^ 53)"
proof -
  have n: "nat \<bar>2 ^ 53 + 1 :: int\<bar> = 2 ^ 53 + 1" by simp
  have "(2::nat) ^ 53 < 2 ^ 1024" by simp
  then have "bitlen (2 ^ 53) \<le> 1024" by (simp only: bitlen_le_iff)
  then show ?thesis
    unfolding plus1.simps toNumber_def Let_def n roundNat_tie by simp
qed

lemma isDigit_plain:
  assumes "isDigit c"
  shows "\<not> isWhiteSpace c" and "c \<noteq> 0x2B" and "c \<noteq> 0x2D"
  using assms unfolding isDigit_def isWhiteSpace_def
  by (auto simp: word_le_nat_alt)

lemma unat_digitChar: "d < 10 \<Longrightarrow> unat (digitChar d) = 48 + d"
proof -
  assume "d < 10"
  have "unat (digitChar d) = (48 + d) mod 2 ^ 16"
    unfolding digitChar_def by (simp only: unat_of_nat) simp
  with \<open>d < 10\<close> show ?thesis by simp
qed

lemma isDigit_digitChar: "d < 10 \<Longrightarrow> isDigit (digitChar d)"
  unfolding isDigit_def by (simp add: word_le_nat_alt unat_digitChar)

lemma digitVal_digitChar: "d < 10 \<Longrightarrow> digitVal (digitChar d) = d"
  unfolding digitVal_def by (simp add: unat_digitChar)

lemma digits_all: "list_all isDigit (digits n)"
proof (induction n rule: digits.induct)
  case (1 n)
  show ?case
  proof (cases "n < 10")
    case True
    then show ?thesis by (subst digits.simps) (simp add: isDigit_digitChar)
  next
    case False
    with 1 show ?thesis by (subst digits.simps) (simp add: isDigit_digitChar)
  qed
qed

lemma digits_nonempty: "digits n \<noteq> []"
  by (subst digits.simps) simp

lemma mathInt_snoc: "mathInt (z @ [c]) = 10 * mathInt z + digitVal c"
  unfolding mathInt_def by simp

lemma mathInt_digits: "mathInt (digits n) = n"
proof (induction n rule: digits.induct)
  case (1 n)
  show ?case
  proof (cases "n < 10")
    case True
    then show ?thesis
      by (subst digits.simps) (simp add: mathInt_def digitVal_digitChar)
  next
    case False
    with 1 have "mathInt (digits (n div 10)) = n div 10" by simp
    with False show ?thesis
      by (subst digits.simps) (simp add: mathInt_snoc digitVal_digitChar)
  qed
qed

lemma mathInt_zeros: "mathInt (replicate k 0x30 @ z) = mathInt z"
proof -
  have z: "foldl (\<lambda>a c. 10 * a + digitVal c) 0 (replicate k 0x30) = 0"
    by (induction k) (simp_all add: digitVal_def)
  show ?thesis unfolding mathInt_def by (simp add: z)
qed

lemma parseInt_digitString:
  assumes "z \<noteq> []" and "list_all isDigit z"
  shows "parseInt z = toNumber (int (mathInt z))"
proof -
  from assms obtain c cs where z: "z = c # cs" by (cases z) auto
  with assms(2) have c: "isDigit c" by simp
  have d: "dropWhile isWhiteSpace z = z"
    unfolding z using isDigit_plain(1) [OF c] by simp
  have t: "takeWhile isDigit z = z"
    using assms(2) by (simp add: list_all_iff)
  have h: "hd z \<noteq> 0x2B" "hd z \<noteq> 0x2D"
    unfolding z using isDigit_plain(2,3) [OF c] by simp_all
  show ?thesis
    unfolding parseInt_def Let_def d using h assms(1) by (simp add: t)
qed

lemma parseInt_padded:
  "parseInt (padStart (digits n) 3 0x30) = toNumber (int n)"
proof -
  have a: "list_all isDigit (padStart (digits n) 3 0x30)"
    unfolding padStart_def using digits_all [of n] by (auto simp: list_all_iff isDigit_def)
  have b: "padStart (digits n) 3 0x30 \<noteq> []"
    unfolding padStart_def by (simp add: digits_nonempty)
  show ?thesis
    unfolding parseInt_digitString [OF b a]
    by (simp add: padStart_def mathInt_zeros mathInt_digits)
qed

section \<open>The scan for the largest sequence number\<close>

lemma scanStep_Fin:
  assumes "safeNumber v" and "parseInt (drop (length p) i) = v" and "startsWith i p"
  shows "scanStep p (Fin m) i = Fin (Max (set (m # finValues [v])))"
proof (cases v)
  case NaN
  with assms show ?thesis by (simp add: scanStep_def)
next
  case (Fin a)
  with assms show ?thesis by (simp add: scanStep_def Let_def max_def)
next
  case PosInf
  with assms show ?thesis by simp
next
  case NegInf
  with assms show ?thesis by simp
qed

lemma finValues_Cons: "set (finValues (v # vs)) = set (finValues [v]) \<union> set (finValues vs)"
  by (cases v) simp_all

lemma scan_safe:
  "list_all safeNumber (parsedSeqs p ids) \<Longrightarrow>
   foldl (scanStep p) (Fin m) ids = Fin (Max (set (m # finValues (parsedSeqs p ids))))"
proof (induction ids arbitrary: m)
  case Nil
  show ?case by (simp add: parsedSeqs_def)
next
  case (Cons i ids)
  show ?case
  proof (cases "startsWith i p")
    case False
    then have s: "scanStep p (Fin m) i = Fin m" by (simp add: scanStep_def)
    from False have e: "parsedSeqs p (i # ids) = parsedSeqs p ids" by (simp add: parsedSeqs_def)
    from Cons.prems Cons.IH [of m] show ?thesis by (simp add: s e)
  next
    case True
    define v where "v = parseInt (drop (length p) i)"
    from True have e: "parsedSeqs p (i # ids) = v # parsedSeqs p ids"
      by (simp add: parsedSeqs_def v_def)
    from Cons.prems have sv: "safeNumber v" and rest: "list_all safeNumber (parsedSeqs p ids)"
      by (simp_all add: e)
    define m' where "m' = Max (set (m # finValues [v]))"
    have s: "scanStep p (Fin m) i = Fin m'"
      unfolding m'_def by (rule scanStep_Fin [OF sv v_def [symmetric] True])
    have "Max (set (m' # finValues (parsedSeqs p ids))) = Max (set (m # finValues (v # parsedSeqs p ids)))"
    proof -
      have f: "finite (set (finValues (parsedSeqs p ids)))" by simp
      have "set (m # finValues (v # parsedSeqs p ids))
              = set (m # finValues [v]) \<union> set (finValues (parsedSeqs p ids))"
        using finValues_Cons [of v "parsedSeqs p ids"] by auto
      show ?thesis
      proof (cases "finValues (parsedSeqs p ids) = []")
        case True
        then have "finValues (v # parsedSeqs p ids) = finValues [v]" by (cases v) simp_all
        with True show ?thesis by (simp add: m'_def)
      next
        case False
        have "Max (set (m # finValues (v # parsedSeqs p ids)))
                = Max (set (m # finValues [v]) \<union> set (finValues (parsedSeqs p ids)))"
          using finValues_Cons [of v "parsedSeqs p ids"]
          by (metis Un_insert_left list.simps(15))
        also have "\<dots> = max m' (Max (set (finValues (parsedSeqs p ids))))"
          unfolding m'_def using False by (intro Max_Un) simp_all
        also have "\<dots> = Max (set (m' # finValues (parsedSeqs p ids)))"
          using False by simp
        finally show ?thesis by simp
      qed
    qed
    with Cons.IH [OF rest, of m'] show ?thesis by (simp add: s e)
  qed
qed

lemma finValues_safe: "list_all safeNumber vs \<Longrightarrow> n \<in> set (finValues vs) \<Longrightarrow> n < 2 ^ 53"
  by (induction vs rule: finValues.induct) auto

lemma finValues_mem: "Fin n \<in> set vs \<Longrightarrow> n \<in> set (finValues vs)"
  by (induction vs rule: finValues.induct) auto

lemma maxSeq_bounds:
  assumes "safeIds p ids"
  shows "0 \<le> maxSeq p ids" and "maxSeq p ids < 2 ^ 53"
proof -
  show "0 \<le> maxSeq p ids" unfolding maxSeq_def by simp
  have "maxSeq p ids \<in> set (0 # finValues (parsedSeqs p ids))"
    unfolding maxSeq_def by (rule Max_in) simp_all
  then show "maxSeq p ids < 2 ^ 53"
    using finValues_safe [OF assms [unfolded safeIds_def]] by auto
qed

lemma generateCardId_prefix:
  "generateCardId rt topic type ids =
    (let prefix = idPrefix rt topic type;
         mx = foldl (scanStep prefix) (Fin 0) ids
     in prefix @ padStart (numberToString rt (plus1 mx)) 3 0x30)"
  by (simp add: generateCardId_def idPrefix_def Let_def)

lemma generateCardId_safe:
  assumes "safeIds (idPrefix rt topic type) ids"
  shows "generateCardId rt topic type ids =
           idPrefix rt topic type
             @ padStart (digits (nat (maxSeq (idPrefix rt topic type) ids + 1))) 3 0x30"
proof -
  define p where "p = idPrefix rt topic type"
  define M where "M = maxSeq p ids"
  from assms have b: "0 \<le> M" "M < 2 ^ 53"
    unfolding M_def p_def by (rule maxSeq_bounds)+
  have scan: "foldl (scanStep p) (Fin 0) ids = Fin M"
    unfolding M_def maxSeq_def using assms unfolding p_def safeIds_def by (rule scan_safe)
  from b have "\<bar>M + 1\<bar> \<le> 2 ^ 53" by simp
  then have n: "plus1 (Fin M) = Fin (M + 1)" by (simp add: toNumber_small)
  have "numberToString rt (Fin (M + 1)) = digits (nat (M + 1))"
    using b by simp
  then show ?thesis
    unfolding generateCardId_prefix Let_def p_def [symmetric] scan n M_def [symmetric] by simp
qed

lemma generateCardId_not_in:
  assumes "safeIds (idPrefix rt topic type) ids"
  shows "generateCardId rt topic type ids \<notin> set ids"
proof
  define p where "p = idPrefix rt topic type"
  define M where "M = maxSeq p ids"
  define g where "g = generateCardId rt topic type ids"
  assume "generateCardId rt topic type ids \<in> set ids"
  then have mem: "g \<in> set ids" by (simp add: g_def)
  from assms have b: "0 \<le> M" "M < 2 ^ 53"
    unfolding M_def p_def by (rule maxSeq_bounds)+
  have g: "g = p @ padStart (digits (nat (M + 1))) 3 0x30"
    unfolding g_def M_def p_def using assms by (rule generateCardId_safe)
  have st: "startsWith g p" unfolding g startsWith_def by simp
  have "parseInt (drop (length p) g) = toNumber (int (nat (M + 1)))"
    unfolding g by (simp add: parseInt_padded)
  also have "\<dots> = Fin (M + 1)" using b by (simp add: toNumber_small)
  finally have "Fin (M + 1) \<in> set (parsedSeqs p ids)"
    unfolding parsedSeqs_def using mem st by force
  then have "M + 1 \<in> set (0 # finValues (parsedSeqs p ids))"
    by (simp add: finValues_mem)
  then have "M + 1 \<le> M"
    unfolding M_def maxSeq_def by (intro Max_ge) simp_all
  then show False by simp
qed

section \<open>The generated identifier\<close>

lemma prefix_ZUG_F: "idPrefix rt (js ''Zugversuch'') (js ''Formel'') = js ''ZUG-F-''"
  by code_simp

lemma parseInt_2_53: "parseInt (js ''9007199254740992'') = Fin (2 ^ 53)"
proof -
  have d: "list_all isDigit (js ''9007199254740992'')" by (simp add: js_def isDigit_def)
  have n: "js ''9007199254740992'' \<noteq> []" by (simp add: js_def)
  have m: "mathInt (js ''9007199254740992'') = 2 ^ 53"
    by (simp add: mathInt_def js_def digitVal_def)
  show ?thesis
    unfolding parseInt_digitString [OF n d] m by (simp add: toNumber_small)
qed

lemma generateCardId_2_53:
  "generateCardId rt (js ''Zugversuch'') (js ''Formel'') [js ''ZUG-F-9007199254740992'']
     = js ''ZUG-F-9007199254740992''"
proof -
  have sw: "startsWith (js ''ZUG-F-9007199254740992'') (js ''ZUG-F-'')"
    by (simp add: startsWith_def js_def)
  have dr: "drop (length (js ''ZUG-F-'')) (js ''ZUG-F-9007199254740992'') = js ''9007199254740992''"
    by (simp add: js_def)
  have st: "scanStep (js ''ZUG-F-'') (Fin 0) (js ''ZUG-F-9007199254740992'') = Fin (2 ^ 53)"
    unfolding scanStep_def Let_def dr parseInt_2_53 using sw by simp
  have ts: "numberToString rt (Fin (2 ^ 53)) = js ''9007199254740992''"
    by (simp add: digits.simps js_def digitChar_def)
  have fo: "foldl (scanStep (js ''ZUG-F-'')) (Fin 0) [js ''ZUG-F-9007199254740992''] = Fin (2 ^ 53)"
    by (simp only: foldl.simps st)
  show ?thesis
    unfolding generateCardId_prefix Let_def prefix_ZUG_F fo plus1_tie ts padStart_def
    by (simp add: js_def)
qed

text \<open>
  C1 (as amended). When every sequence number that \<^verbatim>\<open>parseInt\<close> reads under the derived
  prefix is below \<open>2^53\<close> (\<open>safeIds\<close>), the generated id is the prefix followed by a
  zero-padded decimal number, the prefix is abbreviation, hyphen, initial, hyphen, and the
  id is not among the existing ids; with no existing ids it is the prefix followed by 001.
  Without the bound the id can be one of the existing ones: from \<open>2^53\<close> on, adding 1 to
  a Number need not change it.
\<close>

theorem generateCardId_unique:
  assumes "safeIds (idPrefix rt topic type) existingIds"
  shows "(\<exists>n. generateCardId rt topic type existingIds
                = idPrefix rt topic type @ padStart (digits n) 3 0x30)
       \<and> idPrefix rt topic type
            = getTopicAbbreviation rt topic @ js ''-'' @ toStr (getTypeInitial rt type) @ js ''-''
       \<and> startsWith (generateCardId rt topic type existingIds) (idPrefix rt topic type)
       \<and> generateCardId rt topic type existingIds \<notin> set existingIds
       \<and> generateCardId rt topic type []
            = getTopicAbbreviation rt topic @ js ''-'' @ toStr (getTypeInitial rt type) @ js ''-001''"
proof -
  have form: "generateCardId rt topic type existingIds
      = idPrefix rt topic type
          @ padStart (digits (nat (maxSeq (idPrefix rt topic type) existingIds + 1))) 3 0x30"
    using assms by (rule generateCardId_safe)
  then have ex: "\<exists>n. generateCardId rt topic type existingIds
                = idPrefix rt topic type @ padStart (digits n) 3 0x30" ..
  have sw: "startsWith (generateCardId rt topic type existingIds) (idPrefix rt topic type)"
    unfolding form startsWith_def by simp
  have fresh: "generateCardId rt topic type existingIds \<notin> set existingIds"
    using assms by (rule generateCardId_not_in)
  have "safeIds (idPrefix rt topic type) []"
    by (simp add: safeIds_def parsedSeqs_def)
  then have "generateCardId rt topic type []
      = idPrefix rt topic type @ padStart (digits (nat (maxSeq (idPrefix rt topic type) [] + 1))) 3 0x30"
    by (rule generateCardId_safe)
  also have "padStart (digits (nat (maxSeq (idPrefix rt topic type) [] + 1))) 3 0x30 = js ''001''"
    by (simp add: maxSeq_def parsedSeqs_def digits.simps padStart_def digitChar_def js_def
        numeral_2_eq_2)
  finally have empty: "generateCardId rt topic type []
      = getTopicAbbreviation rt topic @ js ''-'' @ toStr (getTypeInitial rt type) @ js ''-001''"
    by (simp add: idPrefix_def js_def)
  show ?thesis using ex sw fresh empty by (simp add: idPrefix_def)
qed

theorem generateCardId_unique_witness:
  "safeIds (idPrefix bareRuntime (js ''Zugversuch'') (js ''Formel''))
       [js ''ZUG-F-001'', js ''ZUG-F-003'', js ''WAR-D-002'']
   \<and> generateCardId bareRuntime (js ''Zugversuch'') (js ''Formel'')
       [js ''ZUG-F-001'', js ''ZUG-F-003'', js ''WAR-D-002'']
     \<notin> set [js ''ZUG-F-001'', js ''ZUG-F-003'', js ''WAR-D-002'']"
proof -
  have h: "safeIds (idPrefix bareRuntime (js ''Zugversuch'') (js ''Formel''))
       [js ''ZUG-F-001'', js ''ZUG-F-003'', js ''WAR-D-002'']"
    by code_simp
  from generateCardId_unique [OF h] h show ?thesis by blast
qed

theorem generateCardId_unique_counterexample:
  "generateCardId bareRuntime (js ''Zugversuch'') (js ''Formel'') [js ''ZUG-F-9007199254740992'']
     \<in> set [js ''ZUG-F-9007199254740992'']"
  by (simp add: generateCardId_2_53)

lemma maxSeq_2_53:
  "maxSeq (js ''ZUG-F-'') [js ''ZUG-F-9007199254740992''] = 2 ^ 53"
proof -
  have sw: "startsWith (js ''ZUG-F-9007199254740992'') (js ''ZUG-F-'')"
    by (simp add: startsWith_def js_def)
  have dr: "drop (length (js ''ZUG-F-'')) (js ''ZUG-F-9007199254740992'') = js ''9007199254740992''"
    by (simp add: js_def)
  have "parsedSeqs (js ''ZUG-F-'') [js ''ZUG-F-9007199254740992''] = [Fin (2 ^ 53)]"
    unfolding parsedSeqs_def using sw by (simp add: dr parseInt_2_53)
  then show ?thesis by (simp add: maxSeq_def)
qed

text \<open>
  C4 (as amended). When every sequence number read under the prefix is below \<open>2^53\<close>, the
  number of the generated id is one more than the largest integer that \<^verbatim>\<open>parseInt\<close>
  reads from the suffixes of the existing ids with the same prefix, 0 being the floor
  (\<open>maxSeq\<close>); it is written in decimal (\<open>digits\<close>, which \<open>mathInt\<close> reads back) after as
  many zeros as bring it to three characters, and never shortened. The two examples of
  the specification hold.
\<close>

theorem generateCardId_sequence:
  "(safeIds (idPrefix rt topic type) existingIds \<longrightarrow>
      (let n = nat (maxSeq (idPrefix rt topic type) existingIds + 1) in
         generateCardId rt topic type existingIds
           = idPrefix rt topic type @ replicate (3 - length (digits n)) 0x30 @ digits n
         \<and> int (mathInt (digits n)) = maxSeq (idPrefix rt topic type) existingIds + 1))
   \<and> generateCardId rt (js ''Zugversuch'') (js ''Formel'')
         [js ''ZUG-F-001'', js ''ZUG-F-003'', js ''WAR-D-002''] = js ''ZUG-F-004''
   \<and> generateCardId rt (js ''Torsion'') (js ''Graph'') [] = js ''TOR-G-001''"
proof -
  have gen: "safeIds (idPrefix rt topic type) existingIds \<longrightarrow>
      (let n = nat (maxSeq (idPrefix rt topic type) existingIds + 1) in
         generateCardId rt topic type existingIds
           = idPrefix rt topic type @ replicate (3 - length (digits n)) 0x30 @ digits n
         \<and> int (mathInt (digits n)) = maxSeq (idPrefix rt topic type) existingIds + 1)"
  proof
    assume s: "safeIds (idPrefix rt topic type) existingIds"
    from maxSeq_bounds(1) [OF s] generateCardId_safe [OF s]
    show "let n = nat (maxSeq (idPrefix rt topic type) existingIds + 1) in
         generateCardId rt topic type existingIds
           = idPrefix rt topic type @ replicate (3 - length (digits n)) 0x30 @ digits n
         \<and> int (mathInt (digits n)) = maxSeq (idPrefix rt topic type) existingIds + 1"
      by (simp add: Let_def padStart_def mathInt_digits)
  qed
  have e1: "generateCardId rt (js ''Zugversuch'') (js ''Formel'')
         [js ''ZUG-F-001'', js ''ZUG-F-003'', js ''WAR-D-002''] = js ''ZUG-F-004''"
    by code_simp
  have e2: "generateCardId rt (js ''Torsion'') (js ''Graph'') [] = js ''TOR-G-001''"
    by code_simp
  from gen e1 e2 show ?thesis by (intro conjI)
qed

theorem generateCardId_sequence_witness:
  "safeIds (idPrefix bareRuntime (js ''Zugversuch'') (js ''Formel'')) [js ''ZUG-F-1000'', js ''ZUG-F-abc'']
   \<and> maxSeq (idPrefix bareRuntime (js ''Zugversuch'') (js ''Formel'')) [js ''ZUG-F-1000'', js ''ZUG-F-abc''] = 1000
   \<and> generateCardId bareRuntime (js ''Zugversuch'') (js ''Formel'') [js ''ZUG-F-1000'', js ''ZUG-F-abc'']
       = js ''ZUG-F-1001''"
proof -
  have h: "safeIds (idPrefix bareRuntime (js ''Zugversuch'') (js ''Formel'')) [js ''ZUG-F-1000'', js ''ZUG-F-abc'']"
    by code_simp
  have m: "maxSeq (idPrefix bareRuntime (js ''Zugversuch'') (js ''Formel'')) [js ''ZUG-F-1000'', js ''ZUG-F-abc''] = 1000"
    by code_simp
  have d: "digits 1001 = js ''1001''"
    by (simp add: digits.simps digitChar_def js_def)
  from generateCardId_sequence [of bareRuntime "js ''Zugversuch''" "js ''Formel''" "[js ''ZUG-F-1000'', js ''ZUG-F-abc'']"] h
  have "generateCardId bareRuntime (js ''Zugversuch'') (js ''Formel'') [js ''ZUG-F-1000'', js ''ZUG-F-abc'']
       = idPrefix bareRuntime (js ''Zugversuch'') (js ''Formel'') @ replicate (3 - length (digits 1001)) 0x30 @ digits 1001"
    by (simp add: m Let_def)
  then have "generateCardId bareRuntime (js ''Zugversuch'') (js ''Formel'') [js ''ZUG-F-1000'', js ''ZUG-F-abc'']
       = js ''ZUG-F-1001''"
    unfolding prefix_ZUG_F d by (simp add: js_def)
  with h m show ?thesis by (intro conjI)
qed

theorem generateCardId_sequence_counterexample:
  "maxSeq (idPrefix bareRuntime (js ''Zugversuch'') (js ''Formel'')) [js ''ZUG-F-9007199254740992'']
     = 9007199254740992
   \<and> generateCardId bareRuntime (js ''Zugversuch'') (js ''Formel'') [js ''ZUG-F-9007199254740992'']
     = js ''ZUG-F-9007199254740992''
   \<and> generateCardId bareRuntime (js ''Zugversuch'') (js ''Formel'') [js ''ZUG-F-9007199254740992'']
     \<noteq> js ''ZUG-F-9007199254740993''
   \<and> parsedSeqs (idPrefix bareRuntime (js ''Zugversuch'') (js ''Formel'')) [js ''ZUG-F--5'']
     = [Fin (- 5)]
   \<and> generateCardId bareRuntime (js ''Zugversuch'') (js ''Formel'') [js ''ZUG-F--5'']
     = js ''ZUG-F-001''"
proof -
  have a: "parsedSeqs (idPrefix bareRuntime (js ''Zugversuch'') (js ''Formel'')) [js ''ZUG-F--5'']
     = [Fin (- 5)]"
    by code_simp
  have b: "generateCardId bareRuntime (js ''Zugversuch'') (js ''Formel'') [js ''ZUG-F--5'']
     = js ''ZUG-F-001''"
    by code_simp
  have c: "js ''ZUG-F-9007199254740992'' \<noteq> js ''ZUG-F-9007199254740993''"
    by (simp add: js_def)
  show ?thesis
    unfolding prefix_ZUG_F maxSeq_2_53 generateCardId_2_53 using a b c
    by (simp add: prefix_ZUG_F)
qed

lemma scanStep_NaN: "parseInt (drop (length p) x) = NaN \<Longrightarrow> scanStep p mx x = mx"
  by (simp add: scanStep_def)

lemma toNumber_not_NaN: "toNumber i \<noteq> NaN"
  by (simp add: toNumber_def Let_def)

lemma parseInt_NaN_iff:
  "parseInt s = NaN \<longleftrightarrow>
     (let t = dropWhile isWhiteSpace s;
          u = (if t \<noteq> [] \<and> (hd t = 0x2B \<or> hd t = 0x2D) then tl t else t)
      in u = [] \<or> \<not> isDigit (hd u))"
proof -
  have "takeWhile isDigit u = [] \<longleftrightarrow> u = [] \<or> \<not> isDigit (hd u)" for u
    by (cases u) simp_all
  then show ?thesis
    unfolding parseInt_def Let_def by (simp add: toNumber_not_NaN)
qed

lemma generateCardId_12abc:
  "generateCardId rt (js ''Zugversuch'') (js ''Formel'') [js ''ZUG-F-12abc''] = js ''ZUG-F-013''"
  by code_simp

lemma generateCardId_ZUG_F_empty:
  "generateCardId rt (js ''Zugversuch'') (js ''Formel'') [] = js ''ZUG-F-001''"
  by code_simp

text \<open>
  C6 (as amended). An id that starts with the prefix and whose remainder \<^verbatim>\<open>parseInt\<close>
  reads as NaN (after leading white space and an optional sign there is no decimal digit)
  is ignored: taking it out of the list, wherever it stands, leaves the generated id as it
  was. A remainder that only begins with digits is read up to its first other character
  and does count.
\<close>

theorem generateCardId_ignores_NaN:
  assumes "startsWith x (idPrefix rt topic type)"
    and "parseInt (drop (length (idPrefix rt topic type)) x) = NaN"
  shows "generateCardId rt topic type (xs @ x # ys) = generateCardId rt topic type (xs @ ys)"
  unfolding generateCardId_prefix Let_def
  by (simp add: scanStep_NaN [OF assms(2)])

theorem generateCardId_ignores_NaN_witness:
  "startsWith (js ''ZUG-F-abc'') (idPrefix bareRuntime (js ''Zugversuch'') (js ''Formel''))
   \<and> parseInt (drop (length (idPrefix bareRuntime (js ''Zugversuch'') (js ''Formel''))) (js ''ZUG-F-abc'')) = NaN
   \<and> generateCardId bareRuntime (js ''Zugversuch'') (js ''Formel'') ([js ''ZUG-F-002''] @ js ''ZUG-F-abc'' # [js ''ZUG-F-001''])
       = generateCardId bareRuntime (js ''Zugversuch'') (js ''Formel'') ([js ''ZUG-F-002''] @ [js ''ZUG-F-001''])"
proof -
  have a: "startsWith (js ''ZUG-F-abc'') (idPrefix bareRuntime (js ''Zugversuch'') (js ''Formel''))"
    by code_simp
  have b: "parseInt (drop (length (idPrefix bareRuntime (js ''Zugversuch'') (js ''Formel''))) (js ''ZUG-F-abc'')) = NaN"
    by code_simp
  from generateCardId_ignores_NaN [OF a b, of "[js ''ZUG-F-002'']" "[js ''ZUG-F-001'']"] a b
  show ?thesis by (intro conjI)
qed

theorem generateCardId_ignores_NaN_counterexample:
  "startsWith (js ''ZUG-F-12abc'') (idPrefix bareRuntime (js ''Zugversuch'') (js ''Formel''))
   \<and> \<not> list_all isDigit (drop (length (idPrefix bareRuntime (js ''Zugversuch'') (js ''Formel''))) (js ''ZUG-F-12abc''))
   \<and> generateCardId bareRuntime (js ''Zugversuch'') (js ''Formel'') [js ''ZUG-F-12abc''] = js ''ZUG-F-013''
   \<and> generateCardId bareRuntime (js ''Zugversuch'') (js ''Formel'') [] = js ''ZUG-F-001''"
proof -
  have a: "startsWith (js ''ZUG-F-12abc'') (idPrefix bareRuntime (js ''Zugversuch'') (js ''Formel''))"
    unfolding prefix_ZUG_F by (simp add: startsWith_def js_def)
  have b: "\<not> list_all isDigit (drop (length (idPrefix bareRuntime (js ''Zugversuch'') (js ''Formel''))) (js ''ZUG-F-12abc''))"
    unfolding prefix_ZUG_F by (simp add: isDigit_def js_def)
  from a b generateCardId_12abc [of bareRuntime] generateCardId_ZUG_F_empty [of bareRuntime]
  show ?thesis by (intro conjI)
qed

lemma fe_scanStep_eq: "fe_scanStep = scanStep"
  by (intro ext) (simp add: fe_scanStep_def scanStep_def Let_def)

lemma typeMaps_equal: "TYPE_INITIAL_MAP = typeMap"
  by (simp add: TYPE_INITIAL_MAP_def typeMap_def)

lemma generateCardId_form:
  "generateCardId rt topic type ids
     = idFromPrefix rt (getTopicAbbreviation rt topic @ js ''-''
                          @ toStr (getTypeInitial rt type) @ js ''-'') ids"
  by (simp add: generateCardId_def idFromPrefix_def Let_def)

lemma fe_generateCardId_form:
  "fe_generateCardId rt topic type ids
     = idFromPrefix rt (getTopicAbbreviation rt topic @ js ''-''
                          @ toStr (getProp rt typeMap type) @ js ''-'') ids"
  by (simp add: fe_generateCardId_def idFromPrefix_def Let_def fe_scanStep_eq
      fe_getTypeInitial_def typeMaps_equal fe_getTopicAbbreviation_def getTopicAbbreviation_def)

lemma mapped_truthy:
  assumes "type \<in> {js ''Formel'', js ''Definition'', js ''Graph'', js ''Erkl'' @ [0xE4] @ js ''rung''}"
  shows "truthy (getProp rt typeMap type)"
  using assms unfolding getProp_def typeMap_def by (auto simp: js_def)

lemma agree_when_truthy:
  assumes "truthy (getProp rt typeMap type)"
  shows "fe_generateCardId rt topic type ids = generateCardId rt topic type ids"
  unfolding generateCardId_form fe_generateCardId_form using assms
  by (simp add: getTypeInitial_def Let_def)

lemma apart_when_undefined:
  assumes "getProp rt typeMap type = Undefined"
  shows "generateCardId rt topic type ids
           = idFromPrefix rt (getTopicAbbreviation rt topic @ js ''-''
                                @ toUpperCase rt (charAt0 type) @ js ''-'') ids"
    and "fe_generateCardId rt topic type ids
           = idFromPrefix rt (getTopicAbbreviation rt topic @ js ''-undefined-'') ids"
proof -
  show "generateCardId rt topic type ids
           = idFromPrefix rt (getTopicAbbreviation rt topic @ js ''-''
                                @ toUpperCase rt (charAt0 type) @ js ''-'') ids"
    unfolding generateCardId_form by (simp add: getTypeInitial_def Let_def assms)
  have "js ''-'' @ toStr Undefined @ js ''-'' = js ''-undefined-''"
    by (simp add: js_def)
  then show "fe_generateCardId rt topic type ids
           = idFromPrefix rt (getTopicAbbreviation rt topic @ js ''-undefined-'') ids"
    unfolding fe_generateCardId_form assms by simp
qed

lemma abbreviation_Zugversuch: "getTopicAbbreviation rt (js ''Zugversuch'') = js ''ZUG''"
  by code_simp

lemma first_id: "padStart (numberToString rt (plus1 (Fin 0))) 3 0x30 = js ''001''"
  by code_simp

lemma unmapped_type_differs:
  assumes "protoProp rt (js ''Tabelle'') = Undefined"
  shows "generateCardId rt (js ''Zugversuch'') (js ''Tabelle'') [] = js ''ZUG-T-001''"
    and "fe_generateCardId rt (js ''Zugversuch'') (js ''Tabelle'') [] = js ''ZUG-undefined-001''"
proof -
  have own: "map_of typeMap (js ''Tabelle'') = None" "map_of TYPE_INITIAL_MAP (js ''Tabelle'') = None"
    by (simp_all add: typeMap_def TYPE_INITIAL_MAP_def js_def)
  have s: "getTypeInitial rt (js ''Tabelle'') = Str (js ''T'')"
    unfolding getTypeInitial_def getProp_def Let_def own using assms
    by (simp add: toUpperCase_def charAt0_def asciiUpper_def js_def)
  have f: "fe_getTypeInitial rt (js ''Tabelle'') = Undefined"
    unfolding fe_getTypeInitial_def getProp_def own using assms by simp
  have a: "fe_getTopicAbbreviation rt (js ''Zugversuch'') = js ''ZUG''"
    unfolding fe_getTopicAbbreviation_def
    using abbreviation_Zugversuch [of rt, unfolded getTopicAbbreviation_def] .
  show "generateCardId rt (js ''Zugversuch'') (js ''Tabelle'') [] = js ''ZUG-T-001''"
    unfolding generateCardId_def Let_def abbreviation_Zugversuch s foldl.simps first_id
    by (simp add: js_def)
  show "fe_generateCardId rt (js ''Zugversuch'') (js ''Tabelle'') [] = js ''ZUG-undefined-001''"
    unfolding fe_generateCardId_def Let_def a f foldl.simps first_id
    by (simp add: js_def)
qed

text \<open>
  C10 (as amended). The frontend's generator returns the id that the server's returns, for
  every topic and every list of existing ids, whenever the read of the type in the type
  table gives a truthy value: for each of the four mapped types, and for a name that the
  table inherits (as \<^verbatim>\<open>constructor\<close>). When the read gives \<^verbatim>\<open>undefined\<close>, the server
  builds the id on the prefix with the upper-cased first character of the type and the
  frontend on the prefix with the text \<^verbatim>\<open>undefined\<close>.
\<close>

theorem generateCardId_frontend_agrees:
  "(type \<in> {js ''Formel'', js ''Definition'', js ''Graph'', js ''Erkl'' @ [0xE4] @ js ''rung''} \<longrightarrow>
      fe_generateCardId rt topic type existingIds = generateCardId rt topic type existingIds)
   \<and> (truthy (getProp rt typeMap type) \<longrightarrow>
      fe_generateCardId rt topic type existingIds = generateCardId rt topic type existingIds)
   \<and> (getProp rt typeMap type = Undefined \<longrightarrow>
      generateCardId rt topic type existingIds
        = idFromPrefix rt (getTopicAbbreviation rt topic @ js ''-''
                             @ toUpperCase rt (charAt0 type) @ js ''-'') existingIds
      \<and> fe_generateCardId rt topic type existingIds
        = idFromPrefix rt (getTopicAbbreviation rt topic @ js ''-undefined-'') existingIds)"
  using mapped_truthy [of type rt] agree_when_truthy [of rt type topic existingIds]
    apart_when_undefined [of rt type topic existingIds]
  by blast

theorem generateCardId_frontend_agrees_witness:
  "js ''Graph'' \<in> {js ''Formel'', js ''Definition'', js ''Graph'', js ''Erkl'' @ [0xE4] @ js ''rung''}
   \<and> fe_generateCardId bareRuntime (js ''Torsion'') (js ''Graph'') [js ''TOR-G-007'']
       = generateCardId bareRuntime (js ''Torsion'') (js ''Graph'') [js ''TOR-G-007'']
   \<and> generateCardId bareRuntime (js ''Torsion'') (js ''Graph'') [js ''TOR-G-007''] = js ''TOR-G-008''
   \<and> truthy (getProp inheritingRuntime typeMap (js ''constructor''))
   \<and> fe_generateCardId inheritingRuntime (js ''Zugversuch'') (js ''constructor'') []
       = generateCardId inheritingRuntime (js ''Zugversuch'') (js ''constructor'') []
   \<and> generateCardId inheritingRuntime (js ''Zugversuch'') (js ''constructor'') []
       = js ''ZUG-function Object() { [native code] }-001''
   \<and> getProp bareRuntime typeMap (js ''Tabelle'') = Undefined
   \<and> generateCardId bareRuntime (js ''Zugversuch'') (js ''Tabelle'') [] = js ''ZUG-T-001''
   \<and> fe_generateCardId bareRuntime (js ''Zugversuch'') (js ''Tabelle'') [] = js ''ZUG-undefined-001''"
proof -
  have m: "js ''Graph'' \<in> {js ''Formel'', js ''Definition'', js ''Graph'', js ''Erkl'' @ [0xE4] @ js ''rung''}"
    by simp
  from generateCardId_frontend_agrees [of "js ''Graph''" bareRuntime "js ''Torsion''" "[js ''TOR-G-007'']"] m
  have e1: "fe_generateCardId bareRuntime (js ''Torsion'') (js ''Graph'') [js ''TOR-G-007'']
       = generateCardId bareRuntime (js ''Torsion'') (js ''Graph'') [js ''TOR-G-007'']"
    by blast
  have v1: "generateCardId bareRuntime (js ''Torsion'') (js ''Graph'') [js ''TOR-G-007''] = js ''TOR-G-008''"
    by code_simp
  have t: "truthy (getProp inheritingRuntime typeMap (js ''constructor''))"
    by code_simp
  from generateCardId_frontend_agrees [of "js ''constructor''" inheritingRuntime "js ''Zugversuch''" "[]"] t
  have e2: "fe_generateCardId inheritingRuntime (js ''Zugversuch'') (js ''constructor'') []
       = generateCardId inheritingRuntime (js ''Zugversuch'') (js ''constructor'') []"
    by blast
  have v2: "generateCardId inheritingRuntime (js ''Zugversuch'') (js ''constructor'') []
       = js ''ZUG-function Object() { [native code] }-001''"
    by code_simp
  have u: "getProp bareRuntime typeMap (js ''Tabelle'') = Undefined"
    by code_simp
  from generateCardId_frontend_agrees [of "js ''Tabelle''" bareRuntime "js ''Zugversuch''" "[]"] u
  have s3: "generateCardId bareRuntime (js ''Zugversuch'') (js ''Tabelle'') []
        = idFromPrefix bareRuntime (getTopicAbbreviation bareRuntime (js ''Zugversuch'') @ js ''-''
             @ toUpperCase bareRuntime (charAt0 (js ''Tabelle'')) @ js ''-'') []"
    and f3: "fe_generateCardId bareRuntime (js ''Zugversuch'') (js ''Tabelle'') []
        = idFromPrefix bareRuntime (getTopicAbbreviation bareRuntime (js ''Zugversuch'') @ js ''-undefined-'') []"
    by blast+
  have v3: "idFromPrefix bareRuntime (getTopicAbbreviation bareRuntime (js ''Zugversuch'') @ js ''-''
             @ toUpperCase bareRuntime (charAt0 (js ''Tabelle'')) @ js ''-'') [] = js ''ZUG-T-001''"
    by code_simp
  have w3: "idFromPrefix bareRuntime (getTopicAbbreviation bareRuntime (js ''Zugversuch'') @ js ''-undefined-'') []
      = js ''ZUG-undefined-001''"
    by code_simp
  from m e1 v1 t e2 v2 u s3 [unfolded v3] f3 [unfolded w3] show ?thesis by (intro conjI)
qed

theorem generateCardId_frontend_agrees_counterexample:
  "generateCardId bareRuntime (js ''Zugversuch'') (js ''Tabelle'') [] = js ''ZUG-T-001''
   \<and> fe_generateCardId bareRuntime (js ''Zugversuch'') (js ''Tabelle'') [] = js ''ZUG-undefined-001''"
proof -
  have "protoProp bareRuntime (js ''Tabelle'') = Undefined"
    by (simp add: bareRuntime_def)
  from unmapped_type_differs [OF this] show ?thesis by (intro conjI)
qed

section \<open>The review deck: invariants\<close>

lemma addOne_small: "n < 2 ^ 53 \<Longrightarrow> addOne n = n + 1"
  unfolding addOne_def by (rule roundNat_small) simp

lemma addOne_top: "addOne (2 ^ 53) = 2 ^ 53"
  unfolding addOne_def by (rule roundNat_tie)

lemma addOne_top_numeral: "addOne 9007199254740992 = 9007199254740992"
  using addOne_top by simp

lemma addOne_mono:
  assumes "k \<le> t" and "t \<le> 2 ^ 53"
  shows "addOne k \<le> addOne t \<and> addOne t \<le> 2 ^ 53 \<and> k \<le> addOne t"
proof (cases "t < 2 ^ 53")
  case True
  with assms(1) have "k < 2 ^ 53" by simp
  with True assms(1) show ?thesis by (simp add: addOne_small)
next
  case False
  with assms(2) have t: "t = 9007199254740992" by simp
  show ?thesis
  proof (cases "k < 2 ^ 53")
    case True
    then have "addOne k = k + 1" by (rule addOne_small)
    with True show ?thesis by (simp add: t addOne_top_numeral)
  next
    case False
    with assms(1) t have "k = 9007199254740992" by simp
    then show ?thesis by (simp add: t addOne_top_numeral)
  qed
qed

lemma moveToEnd_inside:
  "i < length d \<Longrightarrow> moveToEnd i d = take i d @ drop (Suc i) d @ [d ! i]"
  by (simp add: moveToEnd_def)

lemma moveToEnd_mset: "i < length d \<Longrightarrow> mset (moveToEnd i d) = mset d"
proof -
  assume i: "i < length d"
  have "mset d = mset (take i d @ d ! i # drop (Suc i) d)"
    using id_take_nth_drop [OF i] by simp
  then show ?thesis by (simp add: moveToEnd_inside [OF i])
qed

lemma moveToEnd_length: "i < length d \<Longrightarrow> length (moveToEnd i d) = length d"
  using moveToEnd_mset [of i d] by (metis size_mset)

lemma moveToEnd_last: "Suc i = length d \<Longrightarrow> moveToEnd i d = d"
proof -
  assume l: "Suc i = length d"
  then have i: "i < length d" by simp
  from l have "drop (Suc i) d = []" by simp
  with id_take_nth_drop [OF i] show ?thesis
    by (simp add: moveToEnd_inside [OF i])
qed

lemma handleFlip_inv: "sessionInv M s \<Longrightarrow> sessionInv M (handleFlip s)"
  by (simp add: sessionInv_def handleFlip_def)

lemma handleKnown_inv: "sessionInv M s \<Longrightarrow> sessionInv M (handleKnown s)"
proof -
  assume a: "sessionInv M s"
  then have "knownCount s \<le> totalSeen s" "totalSeen s \<le> 2 ^ 53"
    by (simp_all add: sessionInv_def)
  from addOne_mono [OF this] a show ?thesis
    by (auto simp: sessionInv_def handleKnown_def Let_def)
qed

lemma handleAgain_inv: "sessionInv M s \<Longrightarrow> sessionInv M (handleAgain s)"
proof -
  assume a: "sessionInv M s"
  then have k: "knownCount s \<le> totalSeen s" "totalSeen s \<le> 2 ^ 53"
    and i: "currentIndex s < length (deck s)"
    by (simp_all add: sessionInv_def)
  from addOne_mono [OF k] a moveToEnd_mset [OF i] moveToEnd_length [OF i] i show ?thesis
    by (auto simp: sessionInv_def handleAgain_def Let_def)
qed

lemma step_inv: "sessionInv M s \<Longrightarrow> sessionInv M (step e s)"
proof (cases e)
  case (KeyDown k)
  assume "sessionInv M s"
  then show ?thesis unfolding KeyDown
    by (simp add: handleKeyDown_def handleFlip_inv handleKnown_inv handleAgain_inv)
next
  case ClickCard
  assume "sessionInv M s"
  then show ?thesis unfolding ClickCard by (simp add: handleFlip_inv)
next
  case ClickAgain
  assume "sessionInv M s"
  then show ?thesis unfolding ClickAgain by (simp add: handleAgain_inv)
next
  case ClickKnown
  assume "sessionInv M s"
  then show ?thesis unfolding ClickKnown by (simp add: handleKnown_inv)
qed

lemma run_inv: "sessionInv M s \<Longrightarrow> sessionInv M (run es s)"
  unfolding run_def by (induction es arbitrary: s) (simp_all add: step_inv)

lemma startLearning_inv:
  assumes "mset shuffled = mset cards" and "cards \<noteq> []"
  shows "sessionInv (mset (map Some shuffled)) (startLearning shuffled cards s)"
proof -
  from assms have "shuffled \<noteq> []" by auto
  with assms(2) show ?thesis by (simp add: startLearning_def sessionInv_def)
qed

section \<open>The review deck: sessions and inputs\<close>

text \<open>
  C7. In every state that a started session reaches by key presses and clicks (flip,
  known, again, in any order and number), knownCount is at most totalSeen and the deck
  holds the same cards, each as often, as the deck made at the start, which holds the
  cards given; so its length never changes and no card is dropped or doubled.
\<close>

theorem session_invariants:
  assumes "mset shuffled = mset cards" and "cards \<noteq> []"
  shows "knownCount (run es (startLearning shuffled cards s))
           \<le> totalSeen (run es (startLearning shuffled cards s))
       \<and> mset (deck (run es (startLearning shuffled cards s)))
           = mset (deck (startLearning shuffled cards s))
       \<and> length (deck (run es (startLearning shuffled cards s)))
           = length (deck (startLearning shuffled cards s))
       \<and> mset (deck (startLearning shuffled cards s)) = image_mset Some (mset cards)"
proof -
  define s0 where "s0 = startLearning shuffled cards s"
  have d0: "deck s0 = map Some shuffled"
    using assms(2) by (simp add: s0_def startLearning_def)
  have "sessionInv (mset (map Some shuffled)) s0"
    unfolding s0_def using assms by (rule startLearning_inv)
  then have "sessionInv (mset (map Some shuffled)) (run es s0)" by (rule run_inv)
  then have k: "knownCount (run es s0) \<le> totalSeen (run es s0)"
    and m: "mset (deck (run es s0)) = mset (deck s0)"
    by (simp_all add: sessionInv_def d0)
  from m have l: "length (deck (run es s0)) = length (deck s0)" by (metis size_mset)
  have c: "mset (deck s0) = image_mset Some (mset cards)"
    by (simp add: d0 assms(1) [symmetric])
  from k m l c show ?thesis unfolding s0_def by (intro conjI)
qed

theorem session_invariants_witness:
  "mset [2, 1, 3] = mset [1, 2, 3 :: nat] \<and> [1, 2, 3 :: nat] \<noteq> []
   \<and> knownCount (run [KeyDown Space, KeyDown ArrowLeft, ClickCard, ClickKnown]
        (startLearning [2, 1, 3] [1, 2, 3 :: nat] initialSession))
      \<le> totalSeen (run [KeyDown Space, KeyDown ArrowLeft, ClickCard, ClickKnown]
        (startLearning [2, 1, 3] [1, 2, 3 :: nat] initialSession))
   \<and> mset (deck (run [KeyDown Space, KeyDown ArrowLeft, ClickCard, ClickKnown]
        (startLearning [2, 1, 3] [1, 2, 3 :: nat] initialSession)))
      = image_mset Some (mset [1, 2, 3 :: nat])"
proof -
  have a: "mset [2, 1, 3] = mset [1, 2, 3 :: nat]" by simp
  have b: "[1, 2, 3 :: nat] \<noteq> []" by simp
  from session_invariants [OF a b, of "[KeyDown Space, KeyDown ArrowLeft, ClickCard, ClickKnown]" initialSession] a b
  show ?thesis by simp
qed

text \<open>
  The two handlers carry no guard of their own: called on any state, "known" counts.
\<close>

lemma handleKnown_unguarded:
  "knownCount s < 2 ^ 53 \<Longrightarrow> knownCount (handleKnown s) = knownCount s + 1"
  by (simp add: handleKnown_def Let_def addOne_small)

lemma handleAgain_unguarded:
  "totalSeen s < 2 ^ 53 \<Longrightarrow> totalSeen (handleAgain s) = totalSeen s + 1"
  by (simp add: handleAgain_def Let_def addOne_small)

text \<open>
  C8. While the card is not flipped, or the phase is not the learning phase, the inputs
  for "known" and "again" (the arrow keys and the two buttons) leave the whole state as
  it is. The guard is in the key handler and in what is drawn, not in the two handlers.
\<close>

theorem know_again_ignored:
  assumes "\<not> isFlipped s \<or> phase s \<noteq> Learning"
  shows "step (KeyDown ArrowRight) s = s \<and> step ClickKnown s = s
       \<and> step (KeyDown ArrowLeft) s = s \<and> step ClickAgain s = s"
  using assms by (auto simp: handleKeyDown_def)

theorem know_again_ignored_witness:
  "\<not> isFlipped (startLearning [1] [1 :: nat] initialSession)
   \<and> phase (startLearning [1] [1 :: nat] initialSession) = Learning
   \<and> step (KeyDown ArrowRight) (startLearning [1] [1 :: nat] initialSession)
       = startLearning [1] [1 :: nat] initialSession
   \<and> step ClickKnown (startLearning [1] [1 :: nat] initialSession)
       = startLearning [1] [1 :: nat] initialSession
   \<and> step (KeyDown ArrowLeft) (startLearning [1] [1 :: nat] initialSession)
       = startLearning [1] [1 :: nat] initialSession
   \<and> step ClickAgain (startLearning [1] [1 :: nat] initialSession)
       = startLearning [1] [1 :: nat] initialSession"
proof -
  have a: "\<not> isFlipped (startLearning [1] [1 :: nat] initialSession)"
    and b: "phase (startLearning [1] [1 :: nat] initialSession) = Learning"
    by (simp_all add: startLearning_def)
  from a have "\<not> isFlipped (startLearning [1] [1 :: nat] initialSession)
      \<or> phase (startLearning [1] [1 :: nat] initialSession) \<noteq> Learning" ..
  from know_again_ignored [OF this] a b show ?thesis by blast
qed

lemma currentCard_inside: "currentCard s \<noteq> None \<Longrightarrow> currentIndex s < length (deck s)"
  unfolding currentCard_def by (simp split: if_splits)

lemma handleAgain_inside:
  assumes "currentIndex s < length (deck s)" and "totalSeen s < 2 ^ 53"
  shows "handleAgain s =
    s\<lparr>totalSeen := totalSeen s + 1, isFlipped := False,
      deck := take (currentIndex s) (deck s) @ drop (Suc (currentIndex s)) (deck s)
                @ [deck s ! currentIndex s]\<rparr>"
  unfolding handleAgain_def Let_def
  by (simp add: addOne_small [OF assms(2)] moveToEnd_inside [OF assms(1)])

text \<open>
  C2 (as amended). In the learning phase, with the card flipped, a card shown and
  totalSeen below \<open>2^53\<close>, "again" (the left arrow key or the button) adds 1 to totalSeen,
  leaves knownCount, the index and the phase as they are, turns the card back, and moves
  the current card from its place to the end of the deck. When the card was not the last
  one, the card that followed it is now the current card. When it was the last one, the
  deck is as before and the same card is shown again.
\<close>

theorem again_requeues:
  assumes "phase s = Learning" and "isFlipped s" and "currentCard s \<noteq> None"
    and "totalSeen s < 2 ^ 53" and "e = KeyDown ArrowLeft \<or> e = ClickAgain"
  shows "step e s =
           s\<lparr>totalSeen := totalSeen s + 1, isFlipped := False,
             deck := take (currentIndex s) (deck s) @ drop (Suc (currentIndex s)) (deck s)
                       @ [deck s ! currentIndex s]\<rparr>
       \<and> totalSeen (step e s) = totalSeen s + 1
       \<and> knownCount (step e s) = knownCount s
       \<and> \<not> isFlipped (step e s)
       \<and> currentIndex (step e s) = currentIndex s
       \<and> phase (step e s) = Learning
       \<and> length (deck (step e s)) = length (deck s)
       \<and> (Suc (currentIndex s) < length (deck s) \<longrightarrow>
            currentCard (step e s) = deck s ! Suc (currentIndex s))
       \<and> (Suc (currentIndex s) = length (deck s) \<longrightarrow>
            deck (step e s) = deck s \<and> currentCard (step e s) = currentCard s)"
proof -
  from assms(3) have i: "currentIndex s < length (deck s)"
    by (rule currentCard_inside)
  have st: "step e s = handleAgain s"
    using assms(1,2,3,5) by (auto simp: handleKeyDown_def)
  have c1: "step e s =
           s\<lparr>totalSeen := totalSeen s + 1, isFlipped := False,
             deck := take (currentIndex s) (deck s) @ drop (Suc (currentIndex s)) (deck s)
                       @ [deck s ! currentIndex s]\<rparr>"
    unfolding st using i assms(4) by (rule handleAgain_inside)
  have dk: "deck (step e s) = moveToEnd (currentIndex s) (deck s)"
    by (simp add: c1 moveToEnd_inside [OF i])
  have c2: "totalSeen (step e s) = totalSeen s + 1" by (simp add: c1)
  have c3: "knownCount (step e s) = knownCount s" by (simp add: c1)
  have c4: "\<not> isFlipped (step e s)" by (simp add: c1)
  have c5: "currentIndex (step e s) = currentIndex s" by (simp add: c1)
  have c6: "phase (step e s) = Learning" by (simp add: c1 assms(1))
  have c7: "length (deck (step e s)) = length (deck s)"
    by (simp only: dk moveToEnd_length [OF i])
  have c8: "Suc (currentIndex s) < length (deck s) \<longrightarrow>
            currentCard (step e s) = deck s ! Suc (currentIndex s)"
  proof
    assume a: "Suc (currentIndex s) < length (deck s)"
    have "moveToEnd (currentIndex s) (deck s) ! currentIndex s = deck s ! Suc (currentIndex s)"
      using a by (simp add: moveToEnd_inside [OF i] nth_append)
    then show "currentCard (step e s) = deck s ! Suc (currentIndex s)"
      unfolding currentCard_def c5 c7 using i by (simp add: dk)
  qed
  have c9: "Suc (currentIndex s) = length (deck s) \<longrightarrow>
            deck (step e s) = deck s \<and> currentCard (step e s) = currentCard s"
  proof
    assume a: "Suc (currentIndex s) = length (deck s)"
    then have "deck (step e s) = deck s" by (simp only: dk moveToEnd_last)
    then show "deck (step e s) = deck s \<and> currentCard (step e s) = currentCard s"
      unfolding currentCard_def c5 by simp
  qed
  from c1 c2 c3 c4 c5 c6 c7 c8 c9 show ?thesis by (intro conjI)
qed

theorem again_requeues_witness:
  "phase \<lparr>phase = Learning, deck = [Some 1, Some 2, Some (3 :: nat)], currentIndex = 0,
           isFlipped = True, knownCount = 0, totalSeen = 0\<rparr> = Learning
   \<and> currentCard \<lparr>phase = Learning, deck = [Some 1, Some 2, Some (3 :: nat)], currentIndex = 0,
           isFlipped = True, knownCount = 0, totalSeen = 0\<rparr> \<noteq> None
   \<and> step ClickAgain \<lparr>phase = Learning, deck = [Some 1, Some 2, Some (3 :: nat)], currentIndex = 0,
           isFlipped = True, knownCount = 0, totalSeen = 0\<rparr>
      = \<lparr>phase = Learning, deck = [Some 2, Some 3, Some 1], currentIndex = 0,
           isFlipped = False, knownCount = 0, totalSeen = 1\<rparr>"
proof -
  define s where "s = \<lparr>phase = Learning, deck = [Some 1, Some 2, Some (3 :: nat)], currentIndex = 0,
           isFlipped = True, knownCount = 0, totalSeen = 0\<rparr>"
  have a: "phase s = Learning" and b: "isFlipped s" and c: "currentCard s \<noteq> None"
    and d: "totalSeen s < 2 ^ 53" and e: "ClickAgain = KeyDown ArrowLeft \<or> ClickAgain = ClickAgain"
    by (simp_all add: s_def currentCard_def)
  from again_requeues [OF a b c d e] a c show ?thesis
    unfolding s_def by simp
qed

theorem again_requeues_counterexample:
  "run [KeyDown Space, KeyDown ArrowRight, KeyDown Space, KeyDown ArrowRight, KeyDown Space]
       (startLearning [1, 2, 3] [1, 2, 3 :: nat] initialSession)
     = \<lparr>phase = Learning, deck = [Some 1, Some 2, Some 3], currentIndex = 2,
         isFlipped = True, knownCount = 2, totalSeen = 2\<rparr>
   \<and> currentCard (step (KeyDown ArrowLeft)
         \<lparr>phase = Learning, deck = [Some 1, Some 2, Some (3 :: nat)], currentIndex = 2,
           isFlipped = True, knownCount = 2, totalSeen = 2\<rparr>) = Some 3
   \<and> currentCard (step ClickAgain
         \<lparr>phase = Learning, deck = [Some 1, Some 2, Some (3 :: nat)], currentIndex = 2,
           isFlipped = True, knownCount = 2, totalSeen = 2\<rparr>) = Some 3
   \<and> phase (startLearning [1, 2, 3] [1, 2, 3 :: nat] initialSession) = Learning
   \<and> totalSeen (step (KeyDown ArrowLeft) (startLearning [1, 2, 3] [1, 2, 3 :: nat] initialSession))
       = totalSeen (startLearning [1, 2, 3] [1, 2, 3 :: nat] initialSession)"
  by (simp add: run_def startLearning_def initialSession_def handleKeyDown_def handleFlip_def
      handleKnown_def handleAgain_def moveToEnd_def currentCard_def addOne_small Let_def)

section \<open>The completion percentage\<close>

lemma bitlen_eval:
  "bitlen 0 = 0"
  "bitlen 1 = 1"
  "bitlen (Suc 0) = 1"
  "bitlen (numeral k) = Suc (bitlen (numeral k div 2))"
  by (subst bitlen.simps, simp add: bitlen.simps)+

lemma percentage_3_4: "percentage 3 4 = 75"
proof -
  have b: "bitlen 3 = 2" "bitlen 4 = 3" by (simp_all add: bitlen_eval)
  have t: "53 + bitlen 4 - bitlen 3 = 54" by (simp add: b)
  have h: "halfEven (3 * 2 ^ 54) (4 * 2 ^ 1) = 6755399441055744"
    by (simp add: halfEven_def Let_def)
  have r: "roundNat (6755399441055744 * 2 ^ 1 * 100) = 1351079888211148800"
    by (simp add: roundNat_def Let_def bitlen_eval)
  have c: "\<not> 3 * 2 ^ 54 div 4 < (2 :: nat) ^ 53" by simp
  show ?thesis
    unfolding percentage_def Let_def t using c
    by (simp only: if_False if_True h r) simp
qed

text \<open>
  The rounding of the quotient shows: 23 of 40 is 57.5 percent, and the expression gives 57,
  as \<^verbatim>\<open>Math.round(23 / 40 * 100)\<close> does.
\<close>

lemma percentage_23_40: "percentage 23 40 = 57"
proof -
  have b: "bitlen 23 = 5" "bitlen 40 = 6" by (simp_all add: bitlen_eval)
  have t: "53 + bitlen 40 - bitlen 23 = 54" by (simp add: b)
  have h: "halfEven (23 * 2 ^ 54) (40 * 2 ^ 1) = 5179139571476070"
    by (simp add: halfEven_def Let_def)
  have r: "roundNat (5179139571476070 * 2 ^ 1 * 100) = 1035827914295213952"
    by (simp add: roundNat_def Let_def bitlen_eval)
  have c: "\<not> 23 * 2 ^ 54 div 40 < (2 :: nat) ^ 53" by simp
  show ?thesis
    unfolding percentage_def Let_def t using c
    by (simp only: if_False if_True h r) simp
qed

lemma percentage_0: "percentage k 0 = 0"
  by (simp add: percentage_def)

lemma percentage_all: "0 < n \<Longrightarrow> percentage n n = 100"
proof -
  assume n: "0 < n"
  have t: "53 + bitlen n - bitlen n = 53" by simp
  have r: "roundNat (4503599627370496 * 2 ^ 1 * 100) = 900719925474099200"
    by (simp add: roundNat_def Let_def bitlen_eval)
  have q: "n * 2 ^ 53 div n = 2 ^ 53" using n by simp
  have "n * 2 ^ 53 = (n * 2 ^ 1) * 2 ^ 52" by simp
  then have d: "n * 2 ^ 53 div (n * 2 ^ 1) = 2 ^ 52" and m: "n * 2 ^ 53 mod (n * 2 ^ 1) = 0"
    using n by (simp_all only: nonzero_mult_div_cancel_left mod_mult_self1_is_0) simp_all
  have h: "halfEven (n * 2 ^ 53) (n * 2 ^ 1) = 4503599627370496"
    unfolding halfEven_def Let_def d m using n by simp
  have c: "\<not> n * 2 ^ 53 div n < (2 :: nat) ^ 53" unfolding q by simp
  show ?thesis
    unfolding percentage_def Let_def t using c n
    by (simp only: if_False if_True h r) simp
qed

lemma progress_handleFlip: "progressInv s \<Longrightarrow> progressInv (handleFlip s)"
  by (simp add: progressInv_def handleFlip_def)

lemma progress_handleAgain:
  "progressInv s \<Longrightarrow> phase s = Learning \<Longrightarrow> progressInv (handleAgain s)"
proof -
  assume a: "progressInv s" and p: "phase s = Learning"
  then have i: "currentIndex s < length (deck s)" by (auto simp: progressInv_def)
  from a p moveToEnd_length [OF i] show ?thesis
    by (auto simp: progressInv_def handleAgain_def Let_def)
qed

lemma progress_handleKnown:
  "progressInv s \<Longrightarrow> phase s = Learning \<Longrightarrow> progressInv (handleKnown s)"
proof -
  assume a: "progressInv s" and p: "phase s = Learning"
  then have i: "currentIndex s < length (deck s)" and k: "knownCount s = currentIndex s"
    and l: "length (deck s) \<le> 2 ^ 53"
    by (auto simp: progressInv_def)
  from i k l have "knownCount s < 2 ^ 53" by simp
  then have "addOne (knownCount s) = knownCount s + 1" by (rule addOne_small)
  with i k l p show ?thesis
    by (auto simp: progressInv_def handleKnown_def Let_def)
qed

lemma progress_step: "progressInv s \<Longrightarrow> progressInv (step e s)"
proof (cases "phase s = Learning")
  case False
  then show "progressInv s \<Longrightarrow> progressInv (step e s)" by (cases e) simp_all
next
  case True
  assume a: "progressInv s"
  show "progressInv (step e s)"
  proof (cases e)
    case (KeyDown k)
    with a True show ?thesis
      by (simp add: handleKeyDown_def progress_handleFlip progress_handleAgain progress_handleKnown)
  next
    case ClickCard
    with a show ?thesis by (simp add: progress_handleFlip)
  next
    case ClickAgain
    with a True show ?thesis by (simp add: progress_handleAgain)
  next
    case ClickKnown
    with a True show ?thesis by (simp add: progress_handleKnown)
  qed
qed

lemma progress_run: "progressInv s \<Longrightarrow> progressInv (run es s)"
  unfolding run_def by (induction es arbitrary: s) (simp_all add: progress_step)

text \<open>
  Every session that reaches the end has counted every card as known: knownCount is the
  number of cards and the percentage is 100, whatever was answered "again" on the way.
\<close>

lemma finished_session:
  assumes "mset shuffled = mset cards" and "cards \<noteq> []" and "length cards \<le> 2 ^ 53"
    and "phase (run es (startLearning shuffled cards s)) = Done"
  shows "knownCount (run es (startLearning shuffled cards s)) = length cards"
    and "percentageOf (run es (startLearning shuffled cards s)) = 100"
proof -
  define s0 where "s0 = startLearning shuffled cards s"
  from assms(1) have len: "length shuffled = length cards" by (metis size_mset)
  with assms(2) have ne: "shuffled \<noteq> []" by auto
  have "progressInv s0"
    unfolding s0_def using assms(2,3) ne len by (simp add: progressInv_def startLearning_def)
  then have "progressInv (run es s0)" by (rule progress_run)
  with assms(4) have k: "knownCount (run es s0) = length (deck (run es s0))"
    by (simp add: progressInv_def s0_def)
  have "sessionInv (mset (map Some shuffled)) (run es s0)"
    unfolding s0_def using startLearning_inv [OF assms(1,2)] by (rule run_inv)
  then have "mset (deck (run es s0)) = mset (map Some shuffled)"
    by (simp add: sessionInv_def)
  then have "length (deck (run es s0)) = length (map Some shuffled)"
    by (metis size_mset)
  with len have l: "length (deck (run es s0)) = length cards" by simp
  from k l show "knownCount (run es (startLearning shuffled cards s)) = length cards"
    by (simp add: s0_def)
  from assms(2) have "0 < length cards" by simp
  then show "percentageOf (run es (startLearning shuffled cards s)) = 100"
    unfolding percentageOf_def s0_def [symmetric] k l by (rule percentage_all)
qed

text \<open>
  C9. The run of the specification's example: four cards, the first known, the second
  answered "again" once, then the two after it and the requeued one known. The session
  ends with knownCount 4, totalSeen 5 and 100 percent, where the claim has knownCount 3
  and 75 percent: "known" counts every such answer, also the one that follows "again".
  The expression itself gives 75 for 3 of 4 and 0 for an empty deck.
\<close>

theorem completion_example:
  "run [KeyDown Space, KeyDown ArrowRight, KeyDown Space, KeyDown ArrowLeft,
        KeyDown Space, KeyDown ArrowRight, KeyDown Space, KeyDown ArrowRight,
        KeyDown Space, KeyDown ArrowRight]
       (startLearning [1, 2, 3, 4] [1, 2, 3, 4 :: nat] initialSession)
     = \<lparr>phase = Done, deck = [Some 1, Some 3, Some 4, Some 2], currentIndex = 3,
         isFlipped = False, knownCount = 4, totalSeen = 5\<rparr>
   \<and> percentageOf \<lparr>phase = Done, deck = [Some 1, Some 3, Some 4, Some (2 :: nat)],
         currentIndex = 3, isFlipped = False, knownCount = 4, totalSeen = 5\<rparr> = 100
   \<and> percentage 3 4 = 75
   \<and> percentage known 0 = 0"
proof -
  have r: "run [KeyDown Space, KeyDown ArrowRight, KeyDown Space, KeyDown ArrowLeft,
        KeyDown Space, KeyDown ArrowRight, KeyDown Space, KeyDown ArrowRight,
        KeyDown Space, KeyDown ArrowRight]
       (startLearning [1, 2, 3, 4] [1, 2, 3, 4 :: nat] initialSession)
     = \<lparr>phase = Done, deck = [Some 1, Some 3, Some 4, Some 2], currentIndex = 3,
         isFlipped = False, knownCount = 4, totalSeen = 5\<rparr>"
    by (simp add: run_def startLearning_def initialSession_def handleKeyDown_def handleFlip_def
        handleKnown_def handleAgain_def moveToEnd_def addOne_small Let_def)
  have l: "length [Some 1, Some 3, Some 4, Some (2 :: nat)] = 4" by simp
  have p: "percentageOf \<lparr>phase = Done, deck = [Some 1, Some 3, Some 4, Some (2 :: nat)],
         currentIndex = 3, isFlipped = False, knownCount = 4, totalSeen = 5\<rparr> = 100"
    unfolding percentageOf_def by (simp only: session.simps l) (simp add: percentage_all)
  from r p percentage_3_4 percentage_0 [of known] show ?thesis by (intro conjI)
qed

section \<open>Bulk import\<close>

lemma importLoop_snoc:
  "importLoop rt existingIds existingCards (cards @ [c])
     = importStep rt (set (map fingerprintOf existingCards))
         (importLoop rt existingIds existingCards cards) c"
  by (simp add: importLoop_def Let_def)

lemma importLoop_props:
  fixes existingCards :: "'p card list"
  defines "dup \<equiv> isDuplicate existingCards"
  shows "duplicates (importLoop rt existingIds existingCards cards) = filter dup cards
       \<and> map fst (imported (importLoop rt existingIds existingCards cards))
           = filter (\<lambda>c. \<not> dup c) cards
       \<and> allIds (importLoop rt existingIds existingCards cards)
           = existingIds @ map snd (imported (importLoop rt existingIds existingCards cards))
       \<and> (\<forall>k < length (imported (importLoop rt existingIds existingCards cards)).
            snd (imported (importLoop rt existingIds existingCards cards) ! k)
              = generateCardId rt
                  (cardTopic (fst (imported (importLoop rt existingIds existingCards cards) ! k)))
                  (cardType (fst (imported (importLoop rt existingIds existingCards cards) ! k)))
                  (existingIds
                     @ map snd (take k (imported (importLoop rt existingIds existingCards cards)))))"
proof (induction cards rule: rev_induct)
  case Nil
  show ?case by (simp add: importLoop_def)
next
  case (snoc c cards)
  define st where "st = importLoop rt existingIds existingCards cards"
  define st' where "st' = importLoop rt existingIds existingCards (cards @ [c])"
  have step: "st' = importStep rt (set (map fingerprintOf existingCards)) st c"
    unfolding st'_def st_def by (rule importLoop_snoc)
  from snoc have d: "duplicates st = filter dup cards"
    and i: "map fst (imported st) = filter (\<lambda>c. \<not> dup c) cards"
    and a: "allIds st = existingIds @ map snd (imported st)"
    and g: "\<forall>k < length (imported st).
            snd (imported st ! k)
              = generateCardId rt (cardTopic (fst (imported st ! k)))
                  (cardType (fst (imported st ! k)))
                  (existingIds @ map snd (take k (imported st)))"
    unfolding st_def by blast+
  have "duplicates st' = filter dup (cards @ [c])
       \<and> map fst (imported st') = filter (\<lambda>c. \<not> dup c) (cards @ [c])
       \<and> allIds st' = existingIds @ map snd (imported st')
       \<and> (\<forall>k < length (imported st').
            snd (imported st' ! k)
              = generateCardId rt (cardTopic (fst (imported st' ! k)))
                  (cardType (fst (imported st' ! k)))
                  (existingIds @ map snd (take k (imported st'))))"
  proof (cases "dup c")
    case True
    then have "st' = st\<lparr>duplicates := duplicates st @ [c]\<rparr>"
      unfolding step importStep_def Let_def dup_def isDuplicate_def by simp
    with True d i a g show ?thesis by simp
  next
    case False
    define ident where "ident = generateCardId rt (cardTopic c) (cardType c) (allIds st)"
    from False have e: "st' = st\<lparr>allIds := allIds st @ [ident], imported := imported st @ [(c, ident)]\<rparr>"
      unfolding step importStep_def Let_def dup_def isDuplicate_def ident_def by simp
    have g': "\<forall>k < length (imported st').
            snd (imported st' ! k)
              = generateCardId rt (cardTopic (fst (imported st' ! k)))
                  (cardType (fst (imported st' ! k)))
                  (existingIds @ map snd (take k (imported st')))"
    proof (intro allI impI)
      fix k
      assume "k < length (imported st')"
      then have "k < length (imported st) \<or> k = length (imported st)"
        by (auto simp: e)
      then show "snd (imported st' ! k)
              = generateCardId rt (cardTopic (fst (imported st' ! k)))
                  (cardType (fst (imported st' ! k)))
                  (existingIds @ map snd (take k (imported st')))"
      proof
        assume "k < length (imported st)"
        with g show ?thesis by (simp add: e nth_append)
      next
        assume "k = length (imported st)"
        then show ?thesis by (simp add: e ident_def a)
      qed
    qed
    have d': "duplicates st' = filter dup (cards @ [c])"
      using False d by (simp add: e)
    have i': "map fst (imported st') = filter (\<lambda>c. \<not> dup c) (cards @ [c])"
      using False i by (simp add: e)
    have a': "allIds st' = existingIds @ map snd (imported st')"
      using a by (simp add: e)
    from d' i' a' g' show ?thesis by (intro conjI)
  qed
  then show ?case unfolding st'_def .
qed

lemma content_param: "bindable (paramOf x) \<and> paramOf x \<noteq> PNull \<longleftrightarrow> isValue x"
  by (cases x) (simp_all add: bindable_def)

lemma optional_param: "bindable (orElse x PNull) \<longleftrightarrow> isOptionalValue x"
  by (cases x) (simp_all add: bindable_def)

lemma category_param:
  "bindable (orElse x PString) \<and> orElse x PString \<noteq> PNull \<longleftrightarrow> isOptionalValue x"
  by (cases x) (simp_all add: bindable_def)

lemma stringify_param: "bindable (stringifyOrNull x)"
  by (simp add: stringifyOrNull_def bindable_def)

lemma upsertRuns_iff: "upsertRuns (cardToRow (c, i)) \<longleftrightarrow> acceptedByStore c"
proof -
  have s: "bindable PString" "bindable PNumber" by (simp_all add: bindable_def)
  show ?thesis
    unfolding upsertRuns_def cardToRow_def acceptedByStore_def Let_def
    using content_param [of "fContent (cardRest c)"] category_param [of "fCategory (cardRest c)"]
    by (simp add: s optional_param stringify_param) blast
qed

lemma bulkUpsert_iff:
  "bulkUpsert cards \<noteq> None \<longleftrightarrow> list_all acceptedByStore (map fst cards)"
  unfolding bulkUpsert_def
  by (simp add: list_all_iff) (metis prod.collapse upsertRuns_iff fst_conv)

lemma importRoute_answer:
  "importRoute rt existingIds existingCards (Some cards)
     = (if list_all acceptedByStore (filter (\<lambda>c. \<not> isDuplicate existingCards c) cards)
        then Ok \<lparr>importedCount = length (filter (\<lambda>c. \<not> isDuplicate existingCards c) cards),
                 duplicateCount = length (filter (isDuplicate existingCards) cards),
                 resultCards = imported (importLoop rt existingIds existingCards cards)\<rparr>
        else ServerError)"
proof -
  let ?st = "importLoop rt existingIds existingCards cards"
  note p = importLoop_props [of rt existingIds existingCards cards]
  from p have d: "duplicates ?st = filter (isDuplicate existingCards) cards" by blast
  from p have i: "map fst (imported ?st) = filter (\<lambda>c. \<not> isDuplicate existingCards c) cards"
    by blast
  have li: "length (imported ?st) = length (filter (\<lambda>c. \<not> isDuplicate existingCards c) cards)"
    using i by (metis length_map)
  have b: "bulkUpsert (imported ?st) \<noteq> None
      \<longleftrightarrow> list_all acceptedByStore (filter (\<lambda>c. \<not> isDuplicate existingCards c) cards)"
    unfolding bulkUpsert_iff i ..
  show ?thesis
  proof (cases "imported ?st = []")
    case True
    with i have "filter (\<lambda>c. \<not> isDuplicate existingCards c) cards = []" by simp
    with True show ?thesis
      unfolding importRoute_def Let_def by (simp add: d)
  next
    case False
    show ?thesis
    proof (cases "bulkUpsert (imported ?st)")
      case None
      with b False show ?thesis
        unfolding importRoute_def Let_def by simp
    next
      case (Some rows)
      with b False show ?thesis
        unfolding importRoute_def Let_def by (simp add: d li)
    qed
  qed
qed

lemma bareCard_refused: "\<not> acceptedByStore (bareCard title topic type)"
  by (simp add: acceptedByStore_def bareCard_def)

lemma cardWithContent_accepted: "acceptedByStore (cardWithContent title topic type content)"
  by (simp add: acceptedByStore_def cardWithContent_def)

text \<open>
  C3. For every batch of cards with title, topic and type and every collection of
  existing cards and ids, the import loop puts a card among the duplicates, without an
  id, exactly when its fingerprint (title, topic and type joined by \<^verbatim>\<open>|||\<close>) occurs among
  the existing cards' fingerprints; the other cards are imported in their order, each with
  the id generated from the existing ids followed by the ids given earlier in the batch.
  The answer carries the two counts when the store accepts every imported card, and an
  empty batch gives 0 and 0. A batch of one new card that has title, topic and type but no
  content gets an id in the loop and then status 500 instead of the counts: the store
  refuses the card and the route does not catch the exception.
\<close>

theorem import_classifies:
  "duplicates (importLoop rt existingIds existingCards cards)
     = filter (isDuplicate existingCards) cards
   \<and> map fst (imported (importLoop rt existingIds existingCards cards))
     = filter (\<lambda>c. \<not> isDuplicate existingCards c) cards
   \<and> (\<forall>k < length (imported (importLoop rt existingIds existingCards cards)).
        snd (imported (importLoop rt existingIds existingCards cards) ! k)
          = generateCardId rt
              (cardTopic (fst (imported (importLoop rt existingIds existingCards cards) ! k)))
              (cardType (fst (imported (importLoop rt existingIds existingCards cards) ! k)))
              (existingIds
                 @ map snd (take k (imported (importLoop rt existingIds existingCards cards)))))
   \<and> (list_all acceptedByStore (filter (\<lambda>c. \<not> isDuplicate existingCards c) cards) \<longrightarrow>
        importRoute rt existingIds existingCards (Some cards)
          = Ok \<lparr>importedCount = length (filter (\<lambda>c. \<not> isDuplicate existingCards c) cards),
                duplicateCount = length (filter (isDuplicate existingCards) cards),
                resultCards = imported (importLoop rt existingIds existingCards cards)\<rparr>)
   \<and> importRoute rt existingIds existingCards (Some [])
     = Ok \<lparr>importedCount = 0, duplicateCount = 0, resultCards = []\<rparr>
   \<and> fingerprintOf c = cardTitle c @ js ''|||'' @ cardTopic c @ js ''|||'' @ cardType c
   \<and> imported (importLoop bareRuntime [] [] [bareCard (js ''B'') (js ''T'') (js ''Formel'')])
     = [(bareCard (js ''B'') (js ''T'') (js ''Formel''), js ''TXX-F-001'')]
   \<and> importRoute bareRuntime [] [] (Some [bareCard (js ''B'') (js ''T'') (js ''Formel'')])
     = ServerError"
proof -
  note p = importLoop_props [of rt existingIds existingCards cards]
  from p have d: "duplicates (importLoop rt existingIds existingCards cards)
     = filter (isDuplicate existingCards) cards" by blast
  from p have i: "map fst (imported (importLoop rt existingIds existingCards cards))
     = filter (\<lambda>c. \<not> isDuplicate existingCards c) cards" by blast
  from p have g: "\<forall>k < length (imported (importLoop rt existingIds existingCards cards)).
        snd (imported (importLoop rt existingIds existingCards cards) ! k)
          = generateCardId rt
              (cardTopic (fst (imported (importLoop rt existingIds existingCards cards) ! k)))
              (cardType (fst (imported (importLoop rt existingIds existingCards cards) ! k)))
              (existingIds
                 @ map snd (take k (imported (importLoop rt existingIds existingCards cards))))"
    by blast
  have r: "list_all acceptedByStore (filter (\<lambda>c. \<not> isDuplicate existingCards c) cards) \<longrightarrow>
        importRoute rt existingIds existingCards (Some cards)
          = Ok \<lparr>importedCount = length (filter (\<lambda>c. \<not> isDuplicate existingCards c) cards),
                duplicateCount = length (filter (isDuplicate existingCards) cards),
                resultCards = imported (importLoop rt existingIds existingCards cards)\<rparr>"
    by (simp add: importRoute_answer)
  have e: "importRoute rt existingIds existingCards (Some [])
     = Ok \<lparr>importedCount = 0, duplicateCount = 0, resultCards = []\<rparr>"
    by (simp add: importRoute_answer) (simp add: importLoop_def)
  have f: "fingerprintOf c = cardTitle c @ js ''|||'' @ cardTopic c @ js ''|||'' @ cardType c"
    by (rule fingerprintOf_def)
  have x: "imported (importLoop bareRuntime [] [] [bareCard (js ''B'') (js ''T'') (js ''Formel'')])
     = [(bareCard (js ''B'') (js ''T'') (js ''Formel''), js ''TXX-F-001'')]"
    by code_simp
  have nd: "\<not> isDuplicate [] (bareCard (js ''B'') (js ''T'') (js ''Formel''))"
    by (simp add: isDuplicate_def)
  have y: "importRoute bareRuntime [] [] (Some [bareCard (js ''B'') (js ''T'') (js ''Formel'')])
     = ServerError"
    unfolding importRoute_answer by (simp add: nd bareCard_refused)
  from d i g r e f x y show ?thesis by (intro conjI)
qed

theorem import_classifies_witness:
  "list_all acceptedByStore
     [cardWithContent (js ''B'') (js ''T'') (js ''Formel'') (js ''b''),
      cardWithContent (js ''C'') (js ''T'') (js ''Formel'') (js ''c'')]
   \<and> importRoute bareRuntime [js ''TXX-F-001'']
      [cardWithContent (js ''A'') (js ''T'') (js ''Formel'') (js ''a'')]
      (Some [cardWithContent (js ''A'') (js ''T'') (js ''Formel'') (js ''a''),
             cardWithContent (js ''B'') (js ''T'') (js ''Formel'') (js ''b''),
             cardWithContent (js ''C'') (js ''T'') (js ''Formel'') (js ''c'')])
     = Ok \<lparr>importedCount = 2, duplicateCount = 1,
           resultCards =
             [(cardWithContent (js ''B'') (js ''T'') (js ''Formel'') (js ''b''), js ''TXX-F-002''),
              (cardWithContent (js ''C'') (js ''T'') (js ''Formel'') (js ''c''), js ''TXX-F-003'')]\<rparr>"
proof -
  define a where "a = cardWithContent (js ''A'') (js ''T'') (js ''Formel'') (js ''a'')"
  define b where "b = cardWithContent (js ''B'') (js ''T'') (js ''Formel'') (js ''b'')"
  define c where "c = cardWithContent (js ''C'') (js ''T'') (js ''Formel'') (js ''c'')"
  have da: "isDuplicate [a] a" and db: "\<not> isDuplicate [a] b" and dc: "\<not> isDuplicate [a] c"
    by (simp_all add: isDuplicate_def fingerprintOf_def cardWithContent_def a_def b_def c_def js_def)
  have acc: "list_all acceptedByStore [b, c]"
    by (simp add: b_def c_def cardWithContent_accepted)
  have im: "imported (importLoop bareRuntime [js ''TXX-F-001''] [a] [a, b, c])
      = [(b, js ''TXX-F-002''), (c, js ''TXX-F-003'')]"
    unfolding a_def b_def c_def by code_simp
  from import_classifies [of bareRuntime "[js ''TXX-F-001'']" "[a]" "[a, b, c]"]
  have "list_all acceptedByStore (filter (\<lambda>c. \<not> isDuplicate [a] c) [a, b, c]) \<longrightarrow>
     importRoute bareRuntime [js ''TXX-F-001''] [a] (Some [a, b, c])
     = Ok \<lparr>importedCount = length (filter (\<lambda>c. \<not> isDuplicate [a] c) [a, b, c]),
           duplicateCount = length (filter (isDuplicate [a]) [a, b, c]),
           resultCards = imported (importLoop bareRuntime [js ''TXX-F-001''] [a] [a, b, c])\<rparr>"
    by blast
  with acc have "importRoute bareRuntime [js ''TXX-F-001''] [a] (Some [a, b, c])
     = Ok \<lparr>importedCount = 2, duplicateCount = 1,
           resultCards = [(b, js ''TXX-F-002''), (c, js ''TXX-F-003'')]\<rparr>"
    unfolding im by (simp add: da db dc)
  with acc show ?thesis unfolding a_def b_def c_def by (intro conjI)
qed

end
